theory Spec2Isabelle
  imports Complex_Main "HOL-Library.AList" "HOL-Library.Char_ord" "HOL-Library.List_Lexorder"
    "HOL-Library.Log_Nat" "HOL-Library.Product_Lexorder"
begin

section \<open>Energy calculator (energy_calculator.py)\<close>

text \<open>
  Python errors that the modelled functions can raise are values of \<open>py_error\<close>; a function
  that can raise returns \<open>py_error + 'a\<close> with \<open>Inl\<close> the exception.

  A naive \<open>datetime\<close> is an integer number of microseconds on the proleptic calendar, counted
  from a midnight. Python floats are modelled by rationals. The base energy of a window is
  also modelled in binary64 arithmetic, every operation rounded as the code's is
  (\<open>base_energy_loop_double\<close>), because the claim about it is one of exact equality. The
  operations of the other functions are not rounded.
\<close>

datatype py_error = KeyError | ValueError | TypeError | AttributeError | OverflowError

type_synonym datetime = int

definition US_PER_HOUR :: int where
  "US_PER_HOUR = 3600000000"

definition timedelta_days :: "int \<Rightarrow> int" where
  "timedelta_days d = d * 24 * US_PER_HOUR"

definition hour :: "datetime \<Rightarrow> int" where
  "hour t = (t div US_PER_HOUR) mod 24"

text \<open>\<open>current.replace(minute=0, second=0, microsecond=0) + timedelta(hours=1)\<close>\<close>

definition next_full_hour :: "datetime \<Rightarrow> datetime" where
  "next_full_hour t = (t div US_PER_HOUR) * US_PER_HOUR + US_PER_HOUR"

text \<open>\<open>(b - a).total_seconds() / 3600\<close>\<close>

definition hours_between :: "datetime \<Rightarrow> datetime \<Rightarrow> rat" where
  "hours_between a b = of_int (b - a) / of_int US_PER_HOUR"

text \<open>The class constants. \<open>POWER_CONSUMPTION\<close> is a dictionary of dictionaries.\<close>

definition POWER_CONSUMPTION :: "string \<Rightarrow> (string \<Rightarrow> rat option) option" where
  "POWER_CONSUMPTION rt =
     (if rt = ''server'' then Some [''production'' \<mapsto> 100, ''night'' \<mapsto> 70]
      else if rt = ''workstation'' then Some [''production'' \<mapsto> 60, ''night'' \<mapsto> 0]
      else if rt = ''automate'' then Some [''production'' \<mapsto> 300, ''night'' \<mapsto> 0]
      else if rt = ''internet_gateway'' then Some [''always'' \<mapsto> 50]
      else None)"

definition PRODUCTION_START_HOUR :: int where
  "PRODUCTION_START_HOUR = 8"

definition PRODUCTION_END_HOUR :: int where
  "PRODUCTION_END_HOUR = 20"

definition PRODUCTION_INVENTORY :: "(string \<times> nat) list" where
  "PRODUCTION_INVENTORY =
     [(''server'', 10), (''workstation'', 20), (''automate'', 5), (''internet_gateway'', 1)]"

text \<open>\<open>self.POWER_CONSUMPTION[resource_type][key]\<close>, with its \<open>KeyError\<close>.\<close>

definition power_lookup :: "string \<Rightarrow> string \<Rightarrow> py_error + rat" where
  "power_lookup rt key =
     (case POWER_CONSUMPTION rt of
        None \<Rightarrow> Inl KeyError
      | Some d \<Rightarrow> (case d key of None \<Rightarrow> Inl KeyError | Some w \<Rightarrow> Inr w))"

text \<open>The production or night power selected by the hour of day of an instant.\<close>

definition scheduled_power :: "string \<Rightarrow> datetime \<Rightarrow> py_error + rat" where
  "scheduled_power rt t =
     (if PRODUCTION_START_HOUR \<le> hour t \<and> hour t < PRODUCTION_END_HOUR
      then power_lookup rt ''production''
      else power_lookup rt ''night'')"

lemma next_full_hour_gt: "t < next_full_hour t"
proof -
  have "t mod US_PER_HOUR < US_PER_HOUR"
    by (simp add: US_PER_HOUR_def)
  moreover have "t = (t div US_PER_HOUR) * US_PER_HOUR + t mod US_PER_HOUR"
    by simp
  ultimately show ?thesis
    unfolding next_full_hour_def by linarith
qed

text \<open>The \<open>while current < end_date\<close> loop of \<open>_calculate_base_energy\<close>.\<close>

function base_energy_loop :: "string \<Rightarrow> datetime \<Rightarrow> datetime \<Rightarrow> rat \<Rightarrow> py_error + rat" where
  "base_energy_loop rt current end_date energy =
     (if current < end_date then
        (case scheduled_power rt current of
           Inl e \<Rightarrow> Inl e
         | Inr watts \<Rightarrow>
             (let next_hour = (if next_full_hour current > end_date then end_date
                               else next_full_hour current)
              in base_energy_loop rt next_hour end_date
                   (energy + watts * hours_between current next_hour)))
      else Inr energy)"
  by pat_completeness auto

termination base_energy_loop
proof (relation "measure (\<lambda>(rt, current, end_date, energy). nat (end_date - current))")
  show "wf (measure (\<lambda>(rt, current, end_date, energy). nat (end_date - current)))"
    by simp
next
  fix rt :: string and current end_date :: datetime and energy b x2 :: rat
    and xa :: datetime
  assume lt: "current < end_date"
    and nh: "xa = (if end_date < next_full_hour current then end_date else next_full_hour current)"
  have "current < xa"
    using lt nh next_full_hour_gt [of current] by (simp split: if_splits)
  then show "((rt, xa, end_date, energy + x2 * hours_between current xa),
              (rt, current, end_date, energy))
             \<in> measure (\<lambda>(rt, current, end_date, energy). nat (end_date - current))"
    using lt by simp
qed

declare base_energy_loop.simps [simp del]

definition calculate_base_energy :: "string \<Rightarrow> datetime \<Rightarrow> datetime \<Rightarrow> py_error + rat" where
  "calculate_base_energy rt start_date end_date =
     (if rt = ''internet_gateway'' then
        (case power_lookup ''internet_gateway'' ''always'' of
           Inl e \<Rightarrow> Inl e
         | Inr w \<Rightarrow> Inr (w * hours_between start_date end_date))
      else base_energy_loop rt start_date end_date 0)"

subsection \<open>Base energy over a week\<close>

text \<open>
  The loop is compared with a closed form: \<open>cumulative_energy P N t\<close> is the energy a
  resource with production power \<open>P\<close> and night power \<open>N\<close> draws from the epoch to
  the instant \<open>t\<close>. Every pass of the loop stays inside one clock hour, so it adds
  exactly the growth of the closed form.
\<close>

definition hourly_power :: "rat \<Rightarrow> rat \<Rightarrow> int \<Rightarrow> rat" where
  "hourly_power P N k = (if 8 \<le> k mod 24 \<and> k mod 24 < 20 then P else N)"

definition day_part_energy :: "rat \<Rightarrow> rat \<Rightarrow> int \<Rightarrow> rat" where
  "day_part_energy P N h =
     (if h < 8 then N * of_int h
      else if h < 20 then 8 * N + P * of_int (h - 8)
      else 8 * N + 12 * P + N * of_int (h - 20))"

definition whole_hours_energy :: "rat \<Rightarrow> rat \<Rightarrow> int \<Rightarrow> rat" where
  "whole_hours_energy P N k =
     of_int (k div 24) * (12 * P + 12 * N) + day_part_energy P N (k mod 24)"

lemma day_part_energy_Suc:
  assumes "0 \<le> h" "h < 23"
  shows "day_part_energy P N (h + 1) =
         day_part_energy P N h + (if 8 \<le> h \<and> h < 20 then P else N)"
proof -
  consider "h < 7" | "h = 7" | "8 \<le> h" "h < 19" | "h = 19" | "20 \<le> h"
    by linarith
  then show ?thesis
  proof cases
    case 1
    then show ?thesis by (simp add: day_part_energy_def algebra_simps)
  next
    case 2
    then show ?thesis by (simp add: day_part_energy_def)
  next
    case 3
    then show ?thesis by (simp add: day_part_energy_def algebra_simps)
  next
    case 4
    then show ?thesis by (simp add: day_part_energy_def)
  next
    case 5
    then show ?thesis by (simp add: day_part_energy_def algebra_simps)
  qed
qed

lemma day_part_energy_wrap:
  "day_part_energy P N 0 + (12 * P + 12 * N) = day_part_energy P N 23 + N"
  by (simp add: day_part_energy_def)

lemma whole_hours_energy_Suc:
  "whole_hours_energy P N (k + 1) = whole_hours_energy P N k + hourly_power P N k"
proof (cases "k mod 24 = 23")
  case True
  have "(k + 1) mod 24 = (k mod 24 + 1) mod 24"
    by (simp add: mod_add_left_eq)
  with True have m: "(k + 1) mod 24 = 0" by simp
  have "k + 1 = 24 * (k div 24) + k mod 24 + 1" by simp
  with True have "k + 1 = 24 * (k div 24 + 1)" by simp
  then have d: "(k + 1) div 24 = k div 24 + 1"
    by (metis nonzero_mult_div_cancel_left zero_neq_numeral)
  have "whole_hours_energy P N (k + 1) =
        of_int (k div 24 + 1) * (12 * P + 12 * N) + day_part_energy P N 0"
    by (simp only: whole_hours_energy_def m d)
  also have "\<dots> =
        of_int (k div 24) * (12 * P + 12 * N) + (day_part_energy P N 0 + (12 * P + 12 * N))"
    by (simp add: algebra_simps)
  also have "\<dots> = of_int (k div 24) * (12 * P + 12 * N) + (day_part_energy P N 23 + N)"
    by (simp only: day_part_energy_wrap)
  finally show ?thesis
    using True by (simp add: whole_hours_energy_def hourly_power_def)
next
  case False
  have b: "0 \<le> k mod 24" "k mod 24 < 24" by simp_all
  with False have lt: "k mod 24 < 23" by linarith
  have "k + 1 = 24 * (k div 24) + (k mod 24 + 1)" by simp
  moreover have "0 \<le> k mod 24 + 1" "k mod 24 + 1 < 24" using b lt by linarith+
  ultimately have d: "(k + 1) div 24 = k div 24" and m: "(k + 1) mod 24 = k mod 24 + 1"
    by (metis div_pos_pos_trivial div_mult_self2 add.commute zero_neq_numeral add.left_neutral,
        metis mod_pos_pos_trivial mod_mult_self4)
  show ?thesis
    using day_part_energy_Suc [OF b(1) lt, of P N]
    by (simp add: whole_hours_energy_def hourly_power_def d m)
qed

lemma US_PER_HOUR_pos: "0 < US_PER_HOUR"
  by (simp add: US_PER_HOUR_def)

lemma div_less_of_less_mult:
  fixes e a H :: int
  assumes "0 < H" "e < a * H"
  shows "e div H < a"
proof (rule ccontr)
  assume "\<not> e div H < a"
  then have "a * H \<le> (e div H) * H"
    using assms(1) by (simp add: mult_right_mono)
  moreover have "(e div H) * H \<le> e"
    using assms(1) by (metis div_mult_mod_eq le_add_same_cancel1 pos_mod_sign)
  ultimately show False using assms(2) by linarith
qed

lemma same_hour_div:
  assumes "c \<le> e" "e < next_full_hour c"
  shows "e div US_PER_HOUR = c div US_PER_HOUR"
proof -
  have "c div US_PER_HOUR \<le> e div US_PER_HOUR"
    using assms(1) US_PER_HOUR_pos by (simp add: zdiv_mono1)
  moreover have "e < (c div US_PER_HOUR + 1) * US_PER_HOUR"
    using assms(2) by (simp add: next_full_hour_def distrib_right)
  then have "e div US_PER_HOUR < c div US_PER_HOUR + 1"
    using US_PER_HOUR_pos by (rule div_less_of_less_mult [rotated])
  ultimately show ?thesis by simp
qed

lemma next_full_hour_div: "next_full_hour c div US_PER_HOUR = c div US_PER_HOUR + 1"
  using US_PER_HOUR_pos by (simp add: next_full_hour_def)

lemma next_full_hour_mod: "next_full_hour c mod US_PER_HOUR = 0"
  by (simp add: next_full_hour_def)

lemma next_full_hour_diff: "next_full_hour c - c = US_PER_HOUR - c mod US_PER_HOUR"
proof -
  have "c = (c div US_PER_HOUR) * US_PER_HOUR + c mod US_PER_HOUR" by simp
  then show ?thesis unfolding next_full_hour_def by linarith
qed

definition cumulative_energy :: "rat \<Rightarrow> rat \<Rightarrow> datetime \<Rightarrow> rat" where
  "cumulative_energy P N t =
     whole_hours_energy P N (t div US_PER_HOUR) +
     hourly_power P N (t div US_PER_HOUR) * (of_int (t mod US_PER_HOUR) / of_int US_PER_HOUR)"

lemma cumulative_energy_same_hour:
  assumes "c \<le> e" "e < next_full_hour c"
  shows "cumulative_energy P N e =
         cumulative_energy P N c + hourly_power P N (c div US_PER_HOUR) * hours_between c e"
proof -
  have d: "e div US_PER_HOUR = c div US_PER_HOUR"
    using assms by (rule same_hour_div)
  have "e - e mod US_PER_HOUR = c - c mod US_PER_HOUR"
    by (simp only: minus_mod_eq_mult_div d)
  then have "e - c = e mod US_PER_HOUR - c mod US_PER_HOUR"
    by linarith
  then have "hours_between c e =
      of_int (e mod US_PER_HOUR) / of_int US_PER_HOUR - of_int (c mod US_PER_HOUR) / of_int US_PER_HOUR"
    by (simp add: hours_between_def diff_divide_distrib)
  then show ?thesis
    by (simp add: cumulative_energy_def d right_diff_distrib)
qed

lemma cumulative_energy_full_hour:
  "cumulative_energy P N (next_full_hour c) =
   cumulative_energy P N c + hourly_power P N (c div US_PER_HOUR) * hours_between c (next_full_hour c)"
proof -
  have "hours_between c (next_full_hour c) = 1 - of_int (c mod US_PER_HOUR) / of_int US_PER_HOUR"
    using US_PER_HOUR_pos
    by (simp add: hours_between_def next_full_hour_diff diff_divide_distrib)
  then show ?thesis
    by (simp add: cumulative_energy_def next_full_hour_div next_full_hour_mod
        whole_hours_energy_Suc right_diff_distrib)
qed


lemma whole_hours_energy_week:
  "whole_hours_energy P N (k + 168) = whole_hours_energy P N k + 7 * (12 * P + 12 * N)"
proof -
  have "k + 168 = k + 7 * 24" by simp
  then have "(k + 168) div 24 = k div 24 + 7" "(k + 168) mod 24 = k mod 24"
    by (simp_all only: div_mult_self1 mod_mult_self1)
  then show ?thesis
    by (simp add: whole_hours_energy_def distrib_right)
qed

lemma hourly_power_week: "hourly_power P N (k + 168) = hourly_power P N k"
proof -
  have "k + 168 = k + 7 * 24" by simp
  then have "(k + 168) mod 24 = k mod 24"
    by (simp only: mod_mult_self1)
  then show ?thesis by (simp add: hourly_power_def)
qed

lemma cumulative_energy_week:
  "cumulative_energy P N (t + timedelta_days 7) = cumulative_energy P N t + 7 * (12 * P + 12 * N)"
proof -
  have "t + timedelta_days 7 = t + 168 * US_PER_HOUR"
    by (simp add: timedelta_days_def)
  then have "(t + timedelta_days 7) div US_PER_HOUR = t div US_PER_HOUR + 168"
    "(t + timedelta_days 7) mod US_PER_HOUR = t mod US_PER_HOUR"
    using US_PER_HOUR_pos by simp_all
  then show ?thesis
    by (simp add: cumulative_energy_def whole_hours_energy_week hourly_power_week)
qed

lemma scheduled_power_eq:
  assumes "power_lookup rt ''production'' = Inr P" "power_lookup rt ''night'' = Inr N"
  shows "scheduled_power rt t = Inr (hourly_power P N (t div US_PER_HOUR))"
  using assms
  by (simp add: scheduled_power_def hourly_power_def hour_def
      PRODUCTION_START_HOUR_def PRODUCTION_END_HOUR_def)

lemma base_energy_loop_eq:
  "power_lookup rt ''production'' = Inr P \<Longrightarrow> power_lookup rt ''night'' = Inr N \<Longrightarrow>
   c \<le> e \<Longrightarrow>
   base_energy_loop rt c e acc =
   Inr (acc + (cumulative_energy P N e - cumulative_energy P N c))"
proof (induction rt c e acc rule: base_energy_loop.induct)
  case (1 rt current end_date energy)
  note sp = scheduled_power_eq [OF "1.prems"(1,2), of current]
  show ?case
  proof (cases "current < end_date")
    case False
    with "1.prems" have "current = end_date" by simp
    then show ?thesis by (simp add: base_energy_loop.simps [of rt end_date end_date])
  next
    case lt: True
    show ?thesis
    proof (cases "next_full_hour current > end_date")
      case True
      have "base_energy_loop rt end_date end_date
              (energy + hourly_power P N (current div US_PER_HOUR) * hours_between current end_date) =
            Inr (energy + hourly_power P N (current div US_PER_HOUR) * hours_between current end_date)"
        by (simp add: base_energy_loop.simps [of rt end_date end_date])
      moreover have "cumulative_energy P N end_date =
         cumulative_energy P N current +
         hourly_power P N (current div US_PER_HOUR) * hours_between current end_date"
        using "1.prems"(3) True by (rule cumulative_energy_same_hour)
      ultimately show ?thesis
        using lt True
        by (simp add: base_energy_loop.simps [of rt current end_date] sp Let_def)
    next
      case False
      then have le: "next_full_hour current \<le> end_date" by simp
      have ih: "base_energy_loop rt (next_full_hour current) end_date
              (energy + hourly_power P N (current div US_PER_HOUR) *
                 hours_between current (next_full_hour current)) =
            Inr (energy + hourly_power P N (current div US_PER_HOUR) *
                   hours_between current (next_full_hour current) +
                 (cumulative_energy P N end_date -
                  cumulative_energy P N (next_full_hour current)))"
        using "1.IH" [OF lt sp, of "next_full_hour current"] False le "1.prems"(1,2) by simp
      show ?thesis
        using lt False
        by (simp add: base_energy_loop.simps [of rt current end_date] sp ih Let_def
            cumulative_energy_full_hour [of P N current])
    qed
  qed
qed

lemma power_lookup_simps:
  "power_lookup ''server'' ''production'' = Inr 100"
  "power_lookup ''server'' ''night'' = Inr 70"
  "power_lookup ''workstation'' ''production'' = Inr 60"
  "power_lookup ''workstation'' ''night'' = Inr 0"
  "power_lookup ''automate'' ''production'' = Inr 300"
  "power_lookup ''automate'' ''night'' = Inr 0"
  "power_lookup ''internet_gateway'' ''always'' = Inr 50"
  by (simp_all add: power_lookup_def POWER_CONSUMPTION_def)

lemma timedelta_days_nonneg: "0 \<le> timedelta_days 7"
  by (simp add: timedelta_days_def US_PER_HOUR_def)

lemma base_energy_week_scheduled:
  assumes "rt \<noteq> ''internet_gateway''"
    and "power_lookup rt ''production'' = Inr P" "power_lookup rt ''night'' = Inr N"
  shows "calculate_base_energy rt s (s + timedelta_days 7) = Inr (7 * (12 * P + 12 * N))"
  using assms(1) timedelta_days_nonneg
  by (simp add: calculate_base_energy_def base_energy_loop_eq [OF assms(2,3)]
      cumulative_energy_week)


subsection \<open>Base energy in binary64 arithmetic\<close>

text \<open>
  The code computes the base energy with Python floats. \<open>fl\<close> rounds a rational to the
  nearest binary64 number, ties to even: \<open>binade x\<close> is the exponent of the leading bit of
  \<open>x\<close>, and the significand has 53 bits. Overflow and subnormal numbers are left out: the
  quantities of the loop lie between \<open>1e-10\<close> and \<open>1e5\<close>. Every arithmetic operation of the
  code on floats is its exact result rounded by \<open>fl\<close>; \<open>timedelta.total_seconds()\<close> is the
  correctly rounded quotient of the microseconds by \<open>10**6\<close>.
\<close>

definition round_half_even :: "rat \<Rightarrow> int" where
  "round_half_even y =
     (let lower = \<lfloor>y\<rfloor>; frac = y - of_int lower
      in if frac < 1 / 2 then lower
         else if 1 / 2 < frac then lower + 1
         else if even lower then lower else lower + 1)"

definition binade :: "rat \<Rightarrow> int" where
  "binade x =
     (let k = bitlen \<bar>fst (quotient_of x)\<bar> - bitlen (snd (quotient_of x))
      in if 2 powi k \<le> \<bar>x\<bar> then k else k - 1)"

definition fl :: "rat \<Rightarrow> rat" where
  "fl x =
     (if x = 0 then 0
      else let u = 2 powi (binade x - 52) in of_int (round_half_even (x / u)) * u)"

text \<open>\<open>(b - a).total_seconds()\<close> and \<open>(b - a).total_seconds() / 3600\<close>\<close>

definition total_seconds :: "datetime \<Rightarrow> datetime \<Rightarrow> rat" where
  "total_seconds a b = fl (of_int (b - a) / 1000000)"

definition hours_between_double :: "datetime \<Rightarrow> datetime \<Rightarrow> rat" where
  "hours_between_double a b = fl (total_seconds a b / 3600)"

text \<open>The loop of \<open>_calculate_base_energy\<close>, with \<open>energy += power * hours\<close> rounded twice.\<close>

function base_energy_loop_double :: "string \<Rightarrow> datetime \<Rightarrow> datetime \<Rightarrow> rat \<Rightarrow> py_error + rat" where
  "base_energy_loop_double rt current end_date energy =
     (if current < end_date then
        (case scheduled_power rt current of
           Inl e \<Rightarrow> Inl e
         | Inr watts \<Rightarrow>
             (let next_hour = (if next_full_hour current > end_date then end_date
                               else next_full_hour current)
              in base_energy_loop_double rt next_hour end_date
                   (fl (energy + fl (watts * hours_between_double current next_hour)))))
      else Inr energy)"
  by pat_completeness auto

termination base_energy_loop_double
proof (relation "measure (\<lambda>(rt, current, end_date, energy). nat (end_date - current))")
  show "wf (measure (\<lambda>(rt, current, end_date, energy). nat (end_date - current)))"
    by simp
next
  fix rt :: string and current end_date :: datetime and energy b x2 :: rat
    and xa :: datetime
  assume lt: "current < end_date"
    and nh: "xa = (if end_date < next_full_hour current then end_date else next_full_hour current)"
  have "current < xa"
    using lt nh next_full_hour_gt [of current] by (simp split: if_splits)
  then show "((rt, xa, end_date, fl (energy + fl (x2 * hours_between_double current xa))),
              (rt, current, end_date, energy))
             \<in> measure (\<lambda>(rt, current, end_date, energy). nat (end_date - current))"
    using lt by simp
qed

declare base_energy_loop_double.simps [simp del]

definition calculate_base_energy_double :: "string \<Rightarrow> datetime \<Rightarrow> datetime \<Rightarrow> py_error + rat" where
  "calculate_base_energy_double rt start_date end_date =
     (if rt = ''internet_gateway'' then
        (case power_lookup ''internet_gateway'' ''always'' of
           Inl e \<Rightarrow> Inl e
         | Inr w \<Rightarrow> Inr (fl (w * hours_between_double start_date end_date)))
      else base_energy_loop_double rt start_date end_date 0)"

lemma round_half_even_nearest:
  assumes "\<bar>y - of_int m\<bar> < 1 / 2"
  shows "round_half_even y = m"
proof -
  define f where "f = \<lfloor>y\<rfloor>"
  have b: "of_int f \<le> y" "y < of_int f + 1"
    unfolding f_def by linarith+
  have "of_int f < (of_int (m + 1) :: rat)" "(of_int (m - 1) :: rat) < of_int (f + 1)"
    using assms b by (simp_all add: abs_if split: if_splits)
  then have "f < m + 1" "m - 1 < f + 1"
    by (simp_all only: of_int_less_iff)
  then consider "f = m" | "f = m - 1" by linarith
  then have "(if y - of_int f < 1 / 2 then f
              else if 1 / 2 < y - of_int f then f + 1
              else if even f then f else f + 1) = m"
  proof cases
    case 1
    then show ?thesis using assms b by (auto simp: abs_if split: if_splits)
  next
    case 2
    then show ?thesis using assms b by (auto simp: abs_if split: if_splits)
  qed
  then show ?thesis
    unfolding round_half_even_def Let_def f_def .
qed

lemma round_half_even_of_int: "round_half_even (of_int k) = k"
  by (rule round_half_even_nearest) simp

lemma two_powi_pos: "0 < (2::rat) powi k"
  by simp

lemma two_powi_less_D: "(2::rat) powi a < 2 powi b \<Longrightarrow> a < b"
proof (rule ccontr)
  assume lt: "(2::rat) powi a < 2 powi b" and "\<not> a < b"
  then have "b \<le> a" by simp
  then have "(2::rat) powi b \<le> 2 powi a"
    by (intro power_int_increasing) simp_all
  with lt show False by simp
qed

lemma binade_bounds:
  assumes "x \<noteq> 0"
  shows "2 powi binade x \<le> \<bar>x\<bar>" "\<bar>x\<bar> < 2 powi (binade x + 1)"
proof -
  obtain p q where pq: "quotient_of x = (p, q)" by (cases "quotient_of x")
  have q: "0 < q" using pq by (rule quotient_of_denom_pos)
  have x: "x = of_int p / of_int q" using pq by (rule quotient_of_div)
  with assms have p: "0 < \<bar>p\<bar>" by auto
  define la where "la = bitlen \<bar>p\<bar>"
  define lq where "lq = bitlen q"
  have la: "1 \<le> la" "2 ^ nat (la - 1) \<le> \<bar>p\<bar>" "\<bar>p\<bar> < 2 ^ nat la"
    using bitlen_bounds [OF p] p unfolding la_def by (auto simp: bitlen_alt_def)
  have lq: "1 \<le> lq" "2 ^ nat (lq - 1) \<le> q" "q < 2 ^ nat lq"
    using bitlen_bounds [OF q] q unfolding lq_def by (auto simp: bitlen_alt_def)
  have ax: "\<bar>x\<bar> = of_int \<bar>p\<bar> / of_int q"
    using q by (simp add: x)
  have pa: "(2::rat) powi (la - 1) \<le> of_int \<bar>p\<bar>" "of_int \<bar>p\<bar> < (2::rat) powi la"
  proof -
    have "(2::rat) powi (la - 1) = 2 ^ nat (la - 1)" "(2::rat) powi la = 2 ^ nat la"
      using la(1) by (simp_all add: power_int_def)
    moreover have "(2::rat) ^ nat (la - 1) \<le> of_int \<bar>p\<bar>"
      using la(2) by (metis of_int_le_iff of_int_numeral of_int_power)
    moreover have "of_int \<bar>p\<bar> < (2::rat) ^ nat la"
      using la(3) by (metis of_int_less_iff of_int_numeral of_int_power)
    ultimately show "(2::rat) powi (la - 1) \<le> of_int \<bar>p\<bar>" "of_int \<bar>p\<bar> < (2::rat) powi la"
      by simp_all
  qed
  have qa: "(2::rat) powi (lq - 1) \<le> of_int q" "of_int q < (2::rat) powi lq"
  proof -
    have "(2::rat) powi (lq - 1) = 2 ^ nat (lq - 1)" "(2::rat) powi lq = 2 ^ nat lq"
      using lq(1) by (simp_all add: power_int_def)
    moreover have "(2::rat) ^ nat (lq - 1) \<le> of_int q"
      using lq(2) by (metis of_int_le_iff of_int_numeral of_int_power)
    moreover have "of_int q < (2::rat) ^ nat lq"
      using lq(3) by (metis of_int_less_iff of_int_numeral of_int_power)
    ultimately show "(2::rat) powi (lq - 1) \<le> of_int q" "of_int q < (2::rat) powi lq"
      by simp_all
  qed
  define k where "k = la - lq"
  have qpos: "(0::rat) < of_int q" using q by simp
  have low: "(2::rat) powi (k - 1) < \<bar>x\<bar>"
  proof -
    have "(2::rat) powi (k - 1) * of_int q < 2 powi (k - 1) * 2 powi lq"
      using qa(2) by (intro mult_strict_left_mono) simp_all
    also have "\<dots> = 2 powi (la - 1)"
      by (simp add: k_def flip: power_int_add)
    also have "\<dots> \<le> of_int \<bar>p\<bar>" by (rule pa(1))
    finally show ?thesis
      using qpos by (simp add: ax pos_less_divide_eq)
  qed
  have up: "\<bar>x\<bar> < (2::rat) powi (k + 1)"
  proof -
    have "of_int \<bar>p\<bar> < (2::rat) powi la" by (rule pa(2))
    also have "\<dots> = 2 powi (k + 1) * 2 powi (lq - 1)"
      by (simp add: k_def flip: power_int_add)
    also have "\<dots> \<le> 2 powi (k + 1) * of_int q"
      using qa(1) by (intro mult_left_mono) simp_all
    finally show ?thesis
      using qpos by (simp add: ax pos_divide_less_eq)
  qed
  have b: "binade x = (if 2 powi k \<le> \<bar>x\<bar> then k else k - 1)"
    by (simp add: binade_def pq la_def lq_def k_def)
  show "2 powi binade x \<le> \<bar>x\<bar>"
    using low by (simp add: b)
  show "\<bar>x\<bar> < 2 powi (binade x + 1)"
    using up by (auto simp: b)
qed

lemma binade_unique:
  assumes "2 powi e \<le> \<bar>x\<bar>" "\<bar>x\<bar> < 2 powi (e + 1)"
  shows "binade x = e"
proof -
  have "0 < \<bar>x\<bar>" using assms(1) two_powi_pos [of e] by (rule less_le_trans [rotated])
  then have "x \<noteq> 0" by simp
  note b = binade_bounds [OF this]
  have "(2::rat) powi binade x < 2 powi (e + 1)" using b(1) assms(2) by simp
  then have "binade x < e + 1" by (rule two_powi_less_D)
  moreover have "(2::rat) powi e < 2 powi (binade x + 1)" using b(2) assms(1) by simp
  then have "e < binade x + 1" by (rule two_powi_less_D)
  ultimately show ?thesis by simp
qed


lemma fl_eqI:
  assumes "2 powi (e + 52) \<le> \<bar>x\<bar>" "\<bar>x\<bar> < 2 powi (e + 53)"
    and "\<bar>x - of_int m * 2 powi e\<bar> < 2 powi e / 2"
  shows "fl x = of_int m * 2 powi e"
proof -
  have "\<bar>x\<bar> < 2 powi (e + 52 + 1)" using assms(2) by (simp add: add.assoc)
  with assms(1) have b: "binade x = e + 52" by (rule binade_unique)
  have "0 < \<bar>x\<bar>" using assms(1) two_powi_pos [of "e + 52"] by (rule less_le_trans [rotated])
  then have x: "x \<noteq> 0" by simp
  have u: "(0::rat) < 2 powi e" by simp
  have "x / 2 powi e - of_int m = (x - of_int m * 2 powi e) / 2 powi e"
    by (simp add: diff_divide_distrib)
  then have "\<bar>x / 2 powi e - of_int m\<bar> = \<bar>x - of_int m * 2 powi e\<bar> / 2 powi e"
    by (simp only: abs_divide) simp
  also have "\<dots> < 1 / 2"
    using assms(3) u by (simp add: pos_divide_less_eq)
  finally have "round_half_even (x / 2 powi e) = m"
    by (rule round_half_even_nearest)
  then show ?thesis
    using x by (simp add: fl_def b Let_def)
qed

lemma fl_grid:
  assumes "x = of_int m * 2 powi e" "\<bar>x\<bar> < 2 powi (e + 53)"
  shows "fl x = x"
proof (cases "x = 0")
  case True
  then show ?thesis by (simp add: fl_def)
next
  case False
  define b where "b = binade x"
  have "(2::rat) powi b \<le> \<bar>x\<bar>" unfolding b_def using False by (rule binade_bounds)
  with assms(2) have "(2::rat) powi b < 2 powi (e + 53)" by simp
  then have "b < e + 53" by (rule two_powi_less_D)
  then have k: "0 \<le> e - (b - 52)" by simp
  have "x / 2 powi (b - 52) = of_int m * (2 powi e / 2 powi (b - 52))"
    by (simp add: assms(1))
  also have "2 powi e / 2 powi (b - 52) = (2::rat) powi (e - (b - 52))"
    by (simp add: power_int_diff)
  also have "\<dots> = 2 ^ nat (e - (b - 52))"
    using k by (simp add: power_int_def)
  also have "of_int m * (2::rat) ^ nat (e - (b - 52)) = of_int (m * 2 ^ nat (e - (b - 52)))"
    by simp
  finally have "round_half_even (x / 2 powi (b - 52)) = m * 2 ^ nat (e - (b - 52))"
    by (simp only: round_half_even_of_int)
  then have "fl x = of_int (m * 2 ^ nat (e - (b - 52))) * 2 powi (b - 52)"
    using False by (simp add: fl_def Let_def b_def)
  also have "\<dots> = of_int m * ((2::rat) ^ nat (e - (b - 52)) * 2 powi (b - 52))"
    by simp
  also have "(2::rat) ^ nat (e - (b - 52)) = 2 powi (e - (b - 52))"
    using k by (simp add: power_int_def)
  also have "(2::rat) powi (e - (b - 52)) * 2 powi (b - 52) = 2 powi e"
    by (simp flip: power_int_add)
  finally show ?thesis by (simp add: assms(1))
qed

lemma fl_of_int:
  assumes "\<bar>k\<bar> < 2 ^ 53"
  shows "fl (of_int k) = of_int k"
proof (rule fl_grid [of _ k 0])
  show "(of_int k :: rat) = of_int k * 2 powi 0" by simp
  have "(of_int \<bar>k\<bar> :: rat) < of_int (2 ^ 53)"
    using assms by (simp only: of_int_less_iff)
  then show "\<bar>of_int k :: rat\<bar> < 2 powi (0 + 53)" by simp
qed

lemma double_loop_done: "base_energy_loop_double rt end_date end_date energy = Inr energy"
  by (simp add: base_energy_loop_double.simps [of rt end_date end_date])

lemma double_loop_step:
  assumes "current < end_date" "scheduled_power rt current = Inr w"
    and "next_full_hour current \<le> end_date"
  shows "base_energy_loop_double rt current end_date energy =
         base_energy_loop_double rt (next_full_hour current) end_date
           (fl (energy + fl (w * hours_between_double current (next_full_hour current))))"
  using assms by (simp add: base_energy_loop_double.simps [of rt current end_date] Let_def)

lemma double_loop_last_step:
  assumes "current < end_date" "scheduled_power rt current = Inr w"
    and "end_date < next_full_hour current"
  shows "base_energy_loop_double rt current end_date energy =
         Inr (fl (energy + fl (w * hours_between_double current end_date)))"
  using assms
  by (simp add: base_energy_loop_double.simps [of rt current end_date] Let_def double_loop_done)

lemma fl_3600: "fl 3600 = 3600"
  using fl_of_int [of 3600] by simp

lemma fl_1: "fl 1 = 1"
  using fl_of_int [of 1] by simp

lemma hours_between_double_whole:
  "hours_between_double (j * US_PER_HOUR) ((j + 1) * US_PER_HOUR) = 1"
proof -
  have "(j + 1) * US_PER_HOUR - j * US_PER_HOUR = US_PER_HOUR"
    by (simp add: distrib_right)
  then show ?thesis
    by (simp add: hours_between_double_def total_seconds_def US_PER_HOUR_def fl_3600 fl_1)
qed

lemma whole_hours_energy_mono:
  assumes "0 \<le> P" "0 \<le> N"
  shows "whole_hours_energy P N j \<le> whole_hours_energy P N (j + int k)"
proof (induction k)
  case 0
  then show ?case by simp
next
  case (Suc k)
  have h: "0 \<le> hourly_power P N (j + int k)"
    using assms by (simp add: hourly_power_def)
  have eq: "j + int (Suc k) = (j + int k) + 1" by simp
  have "whole_hours_energy P N (j + int (Suc k)) =
        whole_hours_energy P N (j + int k) + hourly_power P N (j + int k)"
    unfolding eq by (rule whole_hours_energy_Suc)
  then show ?case
    using Suc h by linarith
qed

lemma double_loop_whole_hours:
  assumes P: "power_lookup rt ''production'' = Inr (of_int p)"
    and N: "power_lookup rt ''night'' = Inr (of_int n)"
    and pn: "0 \<le> p" "0 \<le> n"
    and e: "e \<le> 0"
  shows "(j + int k) * US_PER_HOUR \<le> end_date \<Longrightarrow> energy = of_int m * 2 powi e \<Longrightarrow>
     0 \<le> energy \<Longrightarrow>
     energy + (whole_hours_energy (of_int p) (of_int n) (j + int k) -
               whole_hours_energy (of_int p) (of_int n) j) < 2 powi (e + 53) \<Longrightarrow>
     base_energy_loop_double rt (j * US_PER_HOUR) end_date energy =
     base_energy_loop_double rt ((j + int k) * US_PER_HOUR) end_date
       (energy + (whole_hours_energy (of_int p) (of_int n) (j + int k) -
                  whole_hours_energy (of_int p) (of_int n) j))"
proof (induction k arbitrary: j energy m)
  case 0
  then show ?case by simp
next
  case (Suc k)
  let ?P = "of_int p :: rat" and ?N = "of_int n :: rat"
  define wi where "wi = (if 8 \<le> j mod 24 \<and> j mod 24 < 20 then p else n)"
  have w: "hourly_power ?P ?N j = of_int wi"
    by (simp add: hourly_power_def wi_def)
  have wi0: "0 \<le> wi" using pn by (simp add: wi_def)
  have jd: "(j * US_PER_HOUR) div US_PER_HOUR = j"
    using US_PER_HOUR_pos by simp
  have nf: "next_full_hour (j * US_PER_HOUR) = (j + 1) * US_PER_HOUR"
    by (simp add: next_full_hour_def jd distrib_right)
  have sp: "scheduled_power rt (j * US_PER_HOUR) = Inr (of_int wi)"
    using scheduled_power_eq [OF P N, of "j * US_PER_HOUR"] by (simp add: jd w)
  have idx: "j + int (Suc k) = (j + 1) + int k" by simp
  have le1: "(j + 1) * US_PER_HOUR \<le> (j + int (Suc k)) * US_PER_HOUR"
    using US_PER_HOUR_pos by (simp add: mult_right_mono)
  with Suc.prems(1) have le: "(j + 1) * US_PER_HOUR \<le> end_date" by simp
  have "j * US_PER_HOUR < (j + 1) * US_PER_HOUR"
    using US_PER_HOUR_pos by (simp add: distrib_right)
  with le have lt: "j * US_PER_HOUR < end_date" by simp
  have s1: "whole_hours_energy ?P ?N (j + 1) = whole_hours_energy ?P ?N j + of_int wi"
    by (simp add: whole_hours_energy_Suc w)
  have mono: "whole_hours_energy ?P ?N (j + 1) \<le> whole_hours_energy ?P ?N (j + int (Suc k))"
    unfolding idx using pn by (intro whole_hours_energy_mono) simp_all
  have bound: "energy + of_int wi < 2 powi (e + 53)"
    using Suc.prems(4) mono s1 by linarith
  have "(2::rat) powi (e + 53) \<le> 2 powi 53"
    using e by (intro power_int_increasing) simp_all
  with bound Suc.prems(3) have "(of_int wi :: rat) < 2 powi 53" by linarith
  then have "(of_int wi :: rat) < of_int (2 ^ 53)" by simp
  then have "wi < 2 ^ 53" by (simp only: of_int_less_iff)
  with wi0 have flw: "fl (of_int wi) = of_int wi"
    by (intro fl_of_int) simp
  have "(2::rat) powi e * 2 ^ nat (- e) = 2 powi e * 2 powi (- e)"
    using e by (simp add: power_int_def)
  also have "\<dots> = 1" by (simp flip: power_int_add)
  finally have pe: "(2::rat) powi e * 2 ^ nat (- e) = 1" .
  have "of_int (m + wi * 2 ^ nat (- e)) * (2::rat) powi e =
        of_int m * 2 powi e + of_int wi * (2 powi e * 2 ^ nat (- e))"
    by (simp add: algebra_simps)
  then have grid: "energy + of_int wi = of_int (m + wi * 2 ^ nat (- e)) * 2 powi e"
    by (simp only: pe Suc.prems(2) mult_1_right)
  have fle: "fl (energy + of_int wi) = energy + of_int wi"
    using grid
  proof (rule fl_grid)
    show "\<bar>energy + of_int wi\<bar> < 2 powi (e + 53)"
      using bound Suc.prems(3) wi0 by simp
  qed
  have "base_energy_loop_double rt (j * US_PER_HOUR) end_date energy =
        base_energy_loop_double rt ((j + 1) * US_PER_HOUR) end_date (energy + of_int wi)"
    using double_loop_step [OF lt sp, of energy] le
    by (simp add: nf hours_between_double_whole flw fle)
  also have "\<dots> = base_energy_loop_double rt ((j + int (Suc k)) * US_PER_HOUR) end_date
       (energy + (whole_hours_energy ?P ?N (j + int (Suc k)) - whole_hours_energy ?P ?N j))"
  proof -
    have ar: "energy + of_int wi + (whole_hours_energy ?P ?N (j + 1 + int k) -
                whole_hours_energy ?P ?N (j + 1)) =
              energy + (whole_hours_energy ?P ?N (j + 1 + int k) - whole_hours_energy ?P ?N j)"
      using s1 by linarith
    have "base_energy_loop_double rt ((j + 1) * US_PER_HOUR) end_date (energy + of_int wi) =
          base_energy_loop_double rt ((j + 1 + int k) * US_PER_HOUR) end_date
            (energy + of_int wi + (whole_hours_energy ?P ?N (j + 1 + int k) -
               whole_hours_energy ?P ?N (j + 1)))"
    proof (rule Suc.IH [OF _ grid])
      show "(j + 1 + int k) * US_PER_HOUR \<le> end_date"
        using Suc.prems(1) by (simp only: idx)
      show "0 \<le> energy + of_int wi"
        using Suc.prems(3) wi0 by simp
      show "energy + of_int wi + (whole_hours_energy ?P ?N (j + 1 + int k) -
              whole_hours_energy ?P ?N (j + 1)) < 2 powi (e + 53)"
        using Suc.prems(4) s1 unfolding idx by linarith
    qed
    then show ?thesis
      unfolding idx by (simp only: ar)
  qed
  finally show ?case .
qed


lemma base_energy_week_aligned_double:
  assumes rt: "rt \<noteq> ''internet_gateway''"
    and P: "power_lookup rt ''production'' = Inr (of_int p)"
    and N: "power_lookup rt ''night'' = Inr (of_int n)"
    and pn: "0 \<le> p" "0 \<le> n" "7 * (12 * p + 12 * n) < 2 ^ 53"
    and al: "s mod US_PER_HOUR = 0"
  shows "calculate_base_energy_double rt s (s + timedelta_days 7) =
         Inr (of_int (7 * (12 * p + 12 * n)))"
proof -
  define j where "j = s div US_PER_HOUR"
  have "s = (s div US_PER_HOUR) * US_PER_HOUR + s mod US_PER_HOUR"
    by simp
  then have s: "s = j * US_PER_HOUR"
    by (simp only: al j_def add_0_right)
  have e: "s + timedelta_days 7 = (j + int 168) * US_PER_HOUR"
    by (simp add: s timedelta_days_def distrib_right)
  have w: "whole_hours_energy (of_int p) (of_int n) (j + int 168) -
           whole_hours_energy (of_int p) (of_int n) j = (of_int (7 * (12 * p + 12 * n)) :: rat)"
    using whole_hours_energy_week [of "of_int p :: rat" "of_int n" j] by simp
  have "(of_int (7 * (12 * p + 12 * n)) :: rat) < of_int (2 ^ 53)"
    using pn(3) by (simp only: of_int_less_iff)
  then have b: "(of_int (7 * (12 * p + 12 * n)) :: rat) < 2 powi (0 + 53)"
    by simp
  have "base_energy_loop_double rt (j * US_PER_HOUR) ((j + int 168) * US_PER_HOUR) 0 =
        base_energy_loop_double rt ((j + int 168) * US_PER_HOUR) ((j + int 168) * US_PER_HOUR)
          (0 + (whole_hours_energy (of_int p) (of_int n) (j + int 168) -
                whole_hours_energy (of_int p) (of_int n) j))"
  proof (rule double_loop_whole_hours [OF P N pn(1,2), of 0 _ _ _ _ 0])
    show "0 + (whole_hours_energy (of_int p) (of_int n) (j + int 168) -
            whole_hours_energy (of_int p) (of_int n) j) < (2::rat) powi (0 + 53)"
      using b by (simp only: w add_0)
  qed simp_all
  then show ?thesis
    using rt by (simp only: calculate_base_energy_double_def s [symmetric] e [symmetric] w
        double_loop_done add_0 if_False)
qed

text \<open>
  On a window that is not aligned the operations round. Each rounding changes its operand
  by at most the fraction \<open>2^-53\<close> of it, so one pass of the loop moves the accumulated
  energy away from the exact sum by at most \<open>(M + 5 * W) / 2^53\<close>, where \<open>W\<close> bounds the
  power and \<open>M\<close> the energy.
\<close>

lemma round_half_even_error: "\<bar>of_int (round_half_even y) - y\<bar> \<le> 1 / 2"
proof -
  define f where "f = \<lfloor>y\<rfloor>"
  have b: "of_int f \<le> y" "y < of_int f + 1"
    unfolding f_def by linarith+
  have "\<bar>of_int (if y - of_int f < 1 / 2 then f
              else if 1 / 2 < y - of_int f then f + 1
              else if even f then f else f + 1) - y\<bar> \<le> 1 / 2"
    using b by (auto simp: abs_if)
  then show ?thesis
    unfolding round_half_even_def Let_def f_def .
qed

lemma fl_error: "\<bar>fl x - x\<bar> \<le> \<bar>x\<bar> / 2 ^ 53"
proof (cases "x = 0")
  case True
  then show ?thesis by (simp add: fl_def)
next
  case False
  define b where "b = binade x"
  define U :: rat where "U = 2 powi (b - 52)"
  have U: "0 < U" by (simp add: U_def)
  have "fl x = of_int (round_half_even (x / U)) * U"
    using False by (simp add: fl_def Let_def b_def U_def)
  then have "fl x - x = (of_int (round_half_even (x / U)) - x / U) * U"
    using U by (simp add: left_diff_distrib)
  then have "\<bar>fl x - x\<bar> = \<bar>of_int (round_half_even (x / U)) - x / U\<bar> * U"
    using U by (simp add: abs_mult)
  also have "\<dots> \<le> 1 / 2 * U"
    using round_half_even_error [of "x / U"] U by (intro mult_right_mono) simp_all
  also have "1 / 2 * U = 2 powi b / 2 ^ 53"
  proof -
    have "U = 2 powi b / 2 powi 52" by (simp add: U_def power_int_diff)
    then show ?thesis by simp
  qed
  also have "\<dots> \<le> \<bar>x\<bar> / 2 ^ 53"
    using binade_bounds(1) [OF False] by (simp add: b_def divide_right_mono)
  finally show ?thesis .
qed

lemma fl_nonneg:
  assumes "0 \<le> x"
  shows "0 \<le> fl x"
proof -
  have "x / 2 ^ 53 \<le> x" using assms by (simp add: divide_le_eq)
  moreover have "\<bar>fl x - x\<bar> \<le> x / 2 ^ 53" using fl_error [of x] assms by simp
  ultimately show ?thesis by linarith
qed


lemma hours_between_double_error:
  assumes "a < b" "b - a \<le> US_PER_HOUR"
  shows "\<bar>hours_between_double a b - hours_between a b\<bar> \<le> 3 / 2 ^ 53"
    and "0 \<le> hours_between_double a b"
proof -
  define q :: rat where "q = of_int (b - a) / 1000000"
  define ts where "ts = fl q"
  define r where "r = ts / 3600"
  define u :: rat where "u = 1 / 2 ^ 53"
  have u: "0 < u" "u \<le> 1" by (simp_all add: u_def)
  have q: "0 \<le> q" "q \<le> 3600"
  proof -
    have "(of_int (b - a) :: rat) \<le> of_int US_PER_HOUR"
      using assms(2) by (simp only: of_int_le_iff)
    then show "q \<le> 3600" by (simp add: q_def US_PER_HOUR_def)
    have "(0::rat) \<le> of_int (b - a)" using assms(1) by simp
    then show "0 \<le> q" by (simp add: q_def)
  qed
  have d: "hours_between a b = q / 3600"
    by (simp add: hours_between_def q_def US_PER_HOUR_def)
  have h: "hours_between_double a b = fl r"
    by (simp add: hours_between_double_def total_seconds_def r_def ts_def q_def)
  have "\<bar>ts - q\<bar> \<le> q / 2 ^ 53"
    using fl_error [of q] q(1) by (simp add: ts_def)
  also have "\<dots> \<le> 3600 / 2 ^ 53"
    using q(2) by (simp add: divide_right_mono)
  finally have tq: "\<bar>ts - q\<bar> \<le> 3600 / 2 ^ 53" .
  have ts0: "0 \<le> ts" unfolding ts_def using q(1) by (rule fl_nonneg)
  have "r - q / 3600 = (ts - q) / 3600" by (simp add: r_def diff_divide_distrib)
  then have "\<bar>r - q / 3600\<bar> = \<bar>ts - q\<bar> / 3600"
    by (simp only: abs_divide abs_numeral)
  also have "\<dots> \<le> (3600 / 2 ^ 53) / 3600"
    using tq by (rule divide_right_mono) simp
  finally have rd: "\<bar>r - q / 3600\<bar> \<le> u" by (simp add: u_def)
  have r0: "0 \<le> r" using ts0 by (simp add: r_def)
  have "q / 3600 \<le> 1" using q(2) by simp
  with rd u have r2: "r \<le> 2" by linarith
  have "\<bar>fl r - r\<bar> \<le> r * u"
    using fl_error [of r] r0 by (simp add: u_def)
  also have "\<dots> \<le> 2 * u"
    using r2 u(1) by (intro mult_right_mono) simp_all
  finally have "\<bar>fl r - r\<bar> \<le> 2 * u" .
  with rd have "\<bar>fl r - q / 3600\<bar> \<le> 3 * u" by linarith
  then show "\<bar>hours_between_double a b - hours_between a b\<bar> \<le> 3 / 2 ^ 53"
    unfolding h d by (simp add: u_def)
  show "0 \<le> hours_between_double a b"
    unfolding h using r0 by (rule fl_nonneg)
qed

lemma hours_between_le_1:
  assumes "a < b" "b - a \<le> US_PER_HOUR"
  shows "0 \<le> hours_between a b" "hours_between a b \<le> 1"
proof -
  have "(of_int (b - a) :: rat) \<le> of_int US_PER_HOUR"
    using assms(2) by (simp only: of_int_le_iff)
  then show "hours_between a b \<le> 1"
    using US_PER_HOUR_pos by (simp add: hours_between_def divide_le_eq)
  have "(0::rat) \<le> of_int (b - a)" using assms(1) by simp
  then show "0 \<le> hours_between a b"
    using US_PER_HOUR_pos by (simp add: hours_between_def)
qed

lemma double_step_error:
  assumes w: "0 \<le> w" "w \<le> W"
    and A: "0 \<le> A"
    and ab: "a < b" "b - a \<le> US_PER_HOUR"
    and M: "A + w * hours_between a b + (M + 5 * W) / 2 ^ 53 \<le> M"
  shows "\<bar>fl (A + fl (w * hours_between_double a b)) - (A + w * hours_between a b)\<bar>
           \<le> (M + 5 * W) / 2 ^ 53"
    and "0 \<le> fl (A + fl (w * hours_between_double a b))"
proof -
  define d where "d = hours_between a b"
  define h where "h = hours_between_double a b"
  define u :: rat where "u = 1 / 2 ^ 53"
  have u: "0 < u" "u \<le> 1 / 3" by (simp_all add: u_def)
  have W0: "0 \<le> W" using w by simp
  have hd: "\<bar>h - d\<bar> \<le> 3 * u" and h0: "0 \<le> h"
    using hours_between_double_error [OF ab] by (simp_all add: h_def d_def u_def)
  have d01: "0 \<le> d" "d \<le> 1"
    using hours_between_le_1 [OF ab] by (simp_all add: d_def)
  have h2: "h \<le> 2" using hd d01 u by (simp add: abs_le_iff)
  have "w * h - w * d = w * (h - d)" by (simp add: right_diff_distrib)
  then have "\<bar>w * h - w * d\<bar> = w * \<bar>h - d\<bar>"
    using w(1) by (simp add: abs_mult)
  also have "\<dots> \<le> W * (3 * u)"
    using w hd W0 by (intro mult_mono) simp_all
  finally have p1: "\<bar>w * h - w * d\<bar> \<le> 3 * W * u" by simp
  have p0: "0 \<le> w * h" using w(1) h0 by simp
  have "w * h \<le> W * 2" using w h0 h2 W0 by (intro mult_mono) simp_all
  then have p2: "w * h \<le> 2 * W" by simp
  have "\<bar>fl (w * h) - w * h\<bar> \<le> (w * h) * u"
    using fl_error [of "w * h"] p0 by (simp add: u_def)
  also have "\<dots> \<le> (2 * W) * u"
    using p2 u(1) by (intro mult_right_mono) simp_all
  finally have t1: "\<bar>fl (w * h) - w * h\<bar> \<le> 2 * W * u" .
  have t0: "0 \<le> fl (w * h)" using p0 by (rule fl_nonneg)
  have td: "\<bar>fl (w * h) - w * d\<bar> \<le> 5 * W * u"
    using t1 p1 by linarith
  define S where "S = A + fl (w * h)"
  have S0: "0 \<le> S" using A t0 by (simp add: S_def)
  have Mu: "(M + 5 * W) / 2 ^ 53 = M * u + 5 * W * u"
    by (simp add: u_def add_divide_distrib)
  have M0: "0 \<le> M * u"
  proof -
    have wd: "0 \<le> w * d" using w(1) d01(1) by simp
    have Wu: "0 \<le> 5 * W * u" using W0 u(1) by simp
    have "0 \<le> M"
    proof (rule ccontr)
      assume "\<not> 0 \<le> M"
      then have neg: "M < 0" by simp
      have "u < 1" using u(2) by simp
      then have "M * 1 < M * u" using neg by (rule mult_strict_left_mono_neg)
      then show False
        using M wd Wu A unfolding Mu d_def [symmetric] by linarith
    qed
    then show ?thesis using u(1) by simp
  qed
  have "S \<le> A + w * d + 5 * W * u"
    using td by (simp add: S_def abs_le_iff)
  also have "\<dots> \<le> M"
    using M M0 unfolding Mu d_def [symmetric] by linarith
  finally have SM: "S \<le> M" .
  have "\<bar>fl S - S\<bar> \<le> S * u"
    using fl_error [of S] S0 by (simp add: u_def)
  also have "\<dots> \<le> M * u"
    using SM u(1) by (intro mult_right_mono) simp_all
  finally have "\<bar>fl S - S\<bar> \<le> M * u" .
  with td have "\<bar>fl S - (A + w * d)\<bar> \<le> M * u + 5 * W * u"
    unfolding S_def by linarith
  then show "\<bar>fl (A + fl (w * hours_between_double a b)) - (A + w * hours_between a b)\<bar>
           \<le> (M + 5 * W) / 2 ^ 53"
    unfolding Mu S_def h_def d_def .
  show "0 \<le> fl (A + fl (w * hours_between_double a b))"
    using S0 unfolding S_def h_def by (rule fl_nonneg)
qed


lemma cumulative_energy_mono:
  assumes "0 \<le> P" "0 \<le> N" "c \<le> e"
  shows "cumulative_energy P N c \<le> cumulative_energy P N e"
proof -
  define kc where "kc = c div US_PER_HOUR"
  define ke where "ke = e div US_PER_HOUR"
  have hp: "0 \<le> hourly_power P N k" for k
    using assms(1,2) by (simp add: hourly_power_def)
  have fr: "0 \<le> (of_int (t mod US_PER_HOUR) :: rat) / of_int US_PER_HOUR"
    "(of_int (t mod US_PER_HOUR) :: rat) / of_int US_PER_HOUR \<le> 1" for t
  proof -
    have "0 \<le> t mod US_PER_HOUR" "t mod US_PER_HOUR \<le> US_PER_HOUR"
      using US_PER_HOUR_pos by (simp_all add: less_imp_le)
    then have "(0::rat) \<le> of_int (t mod US_PER_HOUR)"
      "(of_int (t mod US_PER_HOUR) :: rat) \<le> of_int US_PER_HOUR"
      by (simp_all only: of_int_le_iff of_int_0_le_iff)
    then show "0 \<le> (of_int (t mod US_PER_HOUR) :: rat) / of_int US_PER_HOUR"
      "(of_int (t mod US_PER_HOUR) :: rat) / of_int US_PER_HOUR \<le> 1"
      using US_PER_HOUR_pos by (simp_all add: divide_le_eq)
  qed
  have le: "kc \<le> ke"
    unfolding kc_def ke_def using assms(3) US_PER_HOUR_pos by (simp add: zdiv_mono1)
  show ?thesis
  proof (cases "kc = ke")
    case True
    have "e < next_full_hour c"
    proof -
      have "e = ke * US_PER_HOUR + e mod US_PER_HOUR" by (simp add: ke_def)
      moreover have "e mod US_PER_HOUR < US_PER_HOUR" using US_PER_HOUR_pos by simp
      ultimately show ?thesis
        unfolding next_full_hour_def kc_def [symmetric] True by linarith
    qed
    with assms(3) have "cumulative_energy P N e =
        cumulative_energy P N c + hourly_power P N (c div US_PER_HOUR) * hours_between c e"
      by (rule cumulative_energy_same_hour)
    moreover have "0 \<le> hours_between c e"
      using assms(3) US_PER_HOUR_pos by (simp add: hours_between_def)
    then have "0 \<le> hourly_power P N (c div US_PER_HOUR) * hours_between c e"
      using hp by simp
    ultimately show ?thesis by simp
  next
    case False
    with le have "kc + 1 \<le> ke" by simp
    then obtain k where k: "ke = (kc + 1) + int k"
      by (metis zle_iff_zadd)
    have "hourly_power P N kc * (of_int (c mod US_PER_HOUR) / of_int US_PER_HOUR)
          \<le> hourly_power P N kc * 1"
      using hp fr(2) by (intro mult_left_mono)
    then have "cumulative_energy P N c \<le> whole_hours_energy P N kc + hourly_power P N kc"
      by (simp add: cumulative_energy_def kc_def)
    also have "\<dots> = whole_hours_energy P N (kc + 1)"
      by (simp only: whole_hours_energy_Suc)
    also have "\<dots> \<le> whole_hours_energy P N ke"
      unfolding k using assms(1,2) by (rule whole_hours_energy_mono)
    also have "\<dots> \<le> cumulative_energy P N e"
    proof -
      have "0 \<le> hourly_power P N ke * (of_int (e mod US_PER_HOUR) / of_int US_PER_HOUR)"
        using hp fr(1) by (intro mult_nonneg_nonneg)
      then show ?thesis by (simp add: cumulative_energy_def ke_def)
    qed
    finally show ?thesis .
  qed
qed

lemma double_loop_error:
  "power_lookup rt ''production'' = Inr P \<Longrightarrow> power_lookup rt ''night'' = Inr N \<Longrightarrow>
   0 \<le> P \<Longrightarrow> P \<le> W \<Longrightarrow> 0 \<le> N \<Longrightarrow> N \<le> W \<Longrightarrow> 0 \<le> M \<Longrightarrow>
   eps = (M + 5 * W) / 2 ^ 53 \<Longrightarrow>
   c \<le> e \<Longrightarrow> 0 \<le> energy \<Longrightarrow>
   energy + (cumulative_energy P N e - cumulative_energy P N c) +
     of_int (e div US_PER_HOUR - c div US_PER_HOUR + 1) * eps \<le> M \<Longrightarrow>
   \<exists>v. base_energy_loop_double rt c e energy = Inr v \<and>
       \<bar>v - (energy + (cumulative_energy P N e - cumulative_energy P N c))\<bar>
         \<le> of_int (e div US_PER_HOUR - c div US_PER_HOUR + 1) * eps"
proof (induction rt c e energy rule: base_energy_loop_double.induct)
  case (1 rt current end_date energy)
  note PN = "1.prems"(1,2)
  note sp = scheduled_power_eq [OF PN, of current]
  define w where "w = hourly_power P N (current div US_PER_HOUR)"
  have w: "0 \<le> w" "w \<le> W"
    using "1.prems"(3-6) by (simp_all add: w_def hourly_power_def)
  have W0: "0 \<le> W" using w by simp
  have eps0: "0 \<le> eps"
    using "1.prems"(7,8) W0 by simp
  define kc where "kc = current div US_PER_HOUR"
  define ke where "ke = end_date div US_PER_HOUR"
  note bound = "1.prems"(11) [folded kc_def ke_def]
  show ?case
  proof (cases "current < end_date")
    case False
    with "1.prems"(9) have eq: "current = end_date" by simp
    show ?thesis
      using eps0 by (simp add: eq double_loop_done)
  next
    case lt: True
    show ?thesis
    proof (cases "next_full_hour current > end_date")
      case True
      have same: "ke = kc"
        unfolding ke_def kc_def using "1.prems"(9) True by (rule same_hour_div)
      have ce: "cumulative_energy P N end_date - cumulative_energy P N current =
                w * hours_between current end_date"
        using cumulative_energy_same_hour [OF "1.prems"(9) True, of P N] by (simp add: w_def)
      have len: "end_date - current \<le> US_PER_HOUR"
        using True "1.prems"(9) next_full_hour_diff [of current] US_PER_HOUR_pos
          pos_mod_sign [of US_PER_HOUR current] by linarith
      have M: "energy + w * hours_between current end_date + (M + 5 * W) / 2 ^ 53 \<le> M"
        using bound unfolding ce same "1.prems"(8) [symmetric] by simp
      note st = double_step_error [OF w "1.prems"(10) lt len M]
      have "base_energy_loop_double rt current end_date energy =
            Inr (fl (energy + fl (w * hours_between_double current end_date)))"
        unfolding w_def using lt sp True by (rule double_loop_last_step)
      then show ?thesis
        using st(1) by (simp add: ce same "1.prems"(8) kc_def [symmetric] ke_def [symmetric])
    next
      case False
      then have le: "next_full_hour current \<le> end_date" by simp
      define nxt where "nxt = next_full_hour current"
      have nd: "nxt div US_PER_HOUR = kc + 1"
        by (simp add: nxt_def kc_def next_full_hour_div)
      have c1: "cumulative_energy P N nxt - cumulative_energy P N current =
                w * hours_between current nxt"
        using cumulative_energy_full_hour [of P N current] by (simp add: w_def nxt_def)
      have mono: "cumulative_energy P N nxt \<le> cumulative_energy P N end_date"
        using "1.prems"(3,5) le unfolding nxt_def by (rule cumulative_energy_mono)
      have cn: "current < nxt" unfolding nxt_def by (rule next_full_hour_gt)
      have len: "nxt - current \<le> US_PER_HOUR"
        using next_full_hour_diff [of current] pos_mod_sign [of US_PER_HOUR current]
          US_PER_HOUR_pos unfolding nxt_def by linarith
      have "kc + 1 \<le> ke"
        unfolding ke_def nd [symmetric] using le US_PER_HOUR_pos
        by (simp add: nxt_def zdiv_mono1)
      then have k1: "(1::rat) \<le> of_int (ke - kc)"
        by (metis of_int_1 of_int_le_iff le_diff_eq add.commute)
      have steps: "(of_int (ke - kc + 1) :: rat) * eps = of_int (ke - kc) * eps + eps"
        by (simp add: distrib_right)
      have "eps \<le> of_int (ke - kc) * eps"
        using k1 eps0 by (metis mult_right_mono mult_1)
      then have M: "energy + w * hours_between current nxt + (M + 5 * W) / 2 ^ 53 \<le> M"
        using bound mono c1 eps0 unfolding steps "1.prems"(8) [symmetric] by linarith
      note st = double_step_error [OF w "1.prems"(10) cn len M, folded "1.prems"(8)]
      define energy' where "energy' = fl (energy + fl (w * hours_between_double current nxt))"
      have idx: "ke - (kc + 1) + 1 = ke - kc" by simp
      have "\<exists>v. base_energy_loop_double rt nxt end_date energy' = Inr v \<and>
              \<bar>v - (energy' + (cumulative_energy P N end_date - cumulative_energy P N nxt))\<bar>
                \<le> of_int (end_date div US_PER_HOUR - nxt div US_PER_HOUR + 1) * eps"
        unfolding energy'_def
      proof (rule "1.IH" [OF lt sp [folded w_def] _ PN "1.prems"(3-8)])
        show "nxt = (if end_date < next_full_hour current then end_date
                     else next_full_hour current)"
          using False by (simp add: nxt_def)
        show "nxt \<le> end_date" using le by (simp add: nxt_def)
        show "0 \<le> fl (energy + fl (w * hours_between_double current nxt))" by (rule st(2))
        show "fl (energy + fl (w * hours_between_double current nxt)) +
                (cumulative_energy P N end_date - cumulative_energy P N nxt) +
                of_int (end_date div US_PER_HOUR - nxt div US_PER_HOUR + 1) * eps \<le> M"
          using st(1) bound c1 unfolding nd idx ke_def [symmetric] steps
          by linarith
      qed
      then obtain v where v: "base_energy_loop_double rt nxt end_date energy' = Inr v"
        "\<bar>v - (energy' + (cumulative_energy P N end_date - cumulative_energy P N nxt))\<bar>
           \<le> of_int (ke - kc) * eps"
        unfolding nd idx ke_def [symmetric] by blast
      have "base_energy_loop_double rt current end_date energy =
            base_energy_loop_double rt nxt end_date energy'"
        unfolding nxt_def energy'_def w_def using lt sp le by (rule double_loop_step)
      then have "base_energy_loop_double rt current end_date energy = Inr v"
        by (simp only: v(1))
      moreover have "\<bar>v - (energy + (cumulative_energy P N end_date -
                       cumulative_energy P N current))\<bar> \<le> of_int (ke - kc + 1) * eps"
        using v(2) st(1) c1 unfolding steps energy'_def [symmetric] by linarith
      ultimately show ?thesis
        unfolding kc_def [symmetric] ke_def [symmetric] by blast
    qed
  qed
qed

lemma server_week_double_error:
  "\<exists>v. calculate_base_energy_double ''server'' s (s + timedelta_days 7) = Inr v \<and>
       \<bar>v - 14280\<bar> \<le> 169 / 2 ^ 39"
proof -
  have e: "s + timedelta_days 7 = s + 168 * US_PER_HOUR"
    by (simp add: timedelta_days_def)
  have d: "(s + timedelta_days 7) div US_PER_HOUR - s div US_PER_HOUR + 1 = 169"
    unfolding e using US_PER_HOUR_pos by simp
  have c: "cumulative_energy 100 70 (s + timedelta_days 7) - cumulative_energy 100 70 s = 14280"
    by (simp add: cumulative_energy_week)
  have "\<exists>v. base_energy_loop_double ''server'' s (s + timedelta_days 7) 0 = Inr v \<and>
          \<bar>v - (0 + (cumulative_energy 100 70 (s + timedelta_days 7) -
                       cumulative_energy 100 70 s))\<bar>
            \<le> of_int ((s + timedelta_days 7) div US_PER_HOUR - s div US_PER_HOUR + 1) *
               (1 / 2 ^ 39)"
  proof (rule double_loop_error [of "''server''" 100 70 100 15884])
    show "0 + (cumulative_energy 100 70 (s + timedelta_days 7) - cumulative_energy 100 70 s) +
            of_int ((s + timedelta_days 7) div US_PER_HOUR - s div US_PER_HOUR + 1) *
              (1 / 2 ^ 39) \<le> (15884 :: rat)"
      unfolding c d by simp
    show "s \<le> s + timedelta_days 7"
      using timedelta_days_nonneg by simp
  qed (simp_all add: power_lookup_simps)
  then show ?thesis
    unfolding c d by (simp add: calculate_base_energy_double_def)
qed

text \<open>
  Claim C2, as the code has it. When the window starts on a full hour, every pass of the
  loop adds an integer number of watt-hours, no addition rounds, and the base energy of a
  server over the seven days is the float \<open>14280.0\<close>, however many midnights the window
  crosses. For every start instant, aligned or not, the loop returns a value within
  \<open>1e-9\<close> Wh of 14280.
\<close>

theorem base_energy_server_week_double:
  "(start_date mod US_PER_HOUR = 0 \<longrightarrow>
      calculate_base_energy_double ''server'' start_date (start_date + timedelta_days 7) =
        Inr 14280) \<and>
   (\<exists>v. calculate_base_energy_double ''server'' start_date (start_date + timedelta_days 7) =
          Inr v \<and> \<bar>v - 14280\<bar> \<le> 1 / 10 ^ 9)"
proof (intro conjI impI)
  assume "start_date mod US_PER_HOUR = 0"
  then show "calculate_base_energy_double ''server'' start_date
               (start_date + timedelta_days 7) = Inr 14280"
    using base_energy_week_aligned_double [of "''server''" 100 70 start_date]
    by (simp add: power_lookup_simps)
next
  obtain v where v: "calculate_base_energy_double ''server'' start_date
      (start_date + timedelta_days 7) = Inr v" "\<bar>v - 14280\<bar> \<le> 169 / 2 ^ 39"
    using server_week_double_error [of start_date] by blast
  have "(169 / 2 ^ 39 :: rat) \<le> 1 / 10 ^ 9" by simp
  with v(2) have "\<bar>v - 14280\<bar> \<le> 1 / 10 ^ 9" by (rule order_trans)
  with v(1) show "\<exists>v. calculate_base_energy_double ''server'' start_date
                        (start_date + timedelta_days 7) = Inr v \<and> \<bar>v - 14280\<bar> \<le> 1 / 10 ^ 9"
    by blast
qed

theorem base_energy_server_week_double_witness:
  "calculate_base_energy_double ''server'' (34 * US_PER_HOUR)
     (34 * US_PER_HOUR + timedelta_days 7) = Inr 14280"
  using base_energy_server_week_double [of "34 * US_PER_HOUR"] by simp

text \<open>
  A window that starts three seconds after midnight. The first pass adds
  \<open>70 * (3597 / 3600)\<close> rounded, the additions of the hours 7 and 96 round again (both are
  ties), and so does the last pass, which adds \<open>70 * (3 / 3600)\<close> rounded.
\<close>

lemma fl_three_seconds:
  "fl (3597000000 / 1000000) = 3597"
  "fl (3597 / 3600) = 8999693255362041 / 9007199254740992"
  "fl (70 * (8999693255362041 / 9007199254740992)) = 1230426812256529 / 17592186044416"
  "fl (0 + 1230426812256529 / 17592186044416) = 1230426812256529 / 17592186044416"
  "fl (70 * 1) = 70"
  "fl (8619144950911249 / 17592186044416 + 70) = 615662373376273 / 1099511627776"
  "fl (8971950744473873 / 1099511627776 + 70) = 565557284901137 / 68719476736"
  "fl (3000000 / 1000000) = 3"
  "fl (3 / 3600) = 7686143364045647 / 9223372036854775808"
  "fl (70 * (7686143364045647 / 9223372036854775808)) = 4203359652212463 / 72057594037927936"
  "fl (981310119153937 / 68719476736 + 4203359652212463 / 72057594037927936) =
     7850513022320639 / 549755813888"
  by code_simp+

lemma server_night_power:
  "scheduled_power ''server'' 3000000 = Inr 70"
  "scheduled_power ''server'' (7 * US_PER_HOUR) = Inr 70"
  "scheduled_power ''server'' (96 * US_PER_HOUR) = Inr 70"
  "scheduled_power ''server'' (168 * US_PER_HOUR) = Inr 70"
  by (simp_all add: scheduled_power_def hour_def US_PER_HOUR_def PRODUCTION_START_HOUR_def
      PRODUCTION_END_HOUR_def power_lookup_simps)

lemma three_seconds_first_hour:
  "base_energy_loop_double ''server'' 3000000 (3000000 + timedelta_days 7) 0 =
   base_energy_loop_double ''server'' (1 * US_PER_HOUR) (3000000 + timedelta_days 7)
     (1230426812256529 / 17592186044416)"
proof -
  have n: "next_full_hour 3000000 = 1 * US_PER_HOUR"
    by (simp add: next_full_hour_def US_PER_HOUR_def)
  have "(of_int (1 * US_PER_HOUR - 3000000) :: rat) / 1000000 = 3597000000 / 1000000"
    by (simp add: US_PER_HOUR_def)
  then have "total_seconds 3000000 (1 * US_PER_HOUR) = 3597"
    by (simp only: total_seconds_def fl_three_seconds)
  then have h: "hours_between_double 3000000 (1 * US_PER_HOUR) = 8999693255362041 / 9007199254740992"
    by (simp only: hours_between_double_def fl_three_seconds)
  have "base_energy_loop_double ''server'' 3000000 (3000000 + timedelta_days 7) 0 =
        base_energy_loop_double ''server'' (next_full_hour 3000000) (3000000 + timedelta_days 7)
          (fl (0 + fl (70 * hours_between_double 3000000 (next_full_hour 3000000))))"
    by (rule double_loop_step [OF _ server_night_power(1)])
      (simp_all add: n timedelta_days_def US_PER_HOUR_def)
  then show ?thesis
    by (simp only: n h fl_three_seconds)
qed


lemma whole_hours_energy_server:
  "whole_hours_energy 100 70 1 = 70"
  "whole_hours_energy 100 70 7 = 490"
  "whole_hours_energy 100 70 8 = 560"
  "whole_hours_energy 100 70 96 = 8160"
  "whole_hours_energy 100 70 97 = 8230"
  "whole_hours_energy 100 70 168 = 14280"
  by (simp_all add: whole_hours_energy_def day_part_energy_def)

lemma three_seconds_run:
  assumes "(j + int k) * US_PER_HOUR \<le> end_date" "energy = of_int m * 2 powi e" "e \<le> 0"
    and "0 \<le> energy"
    and "energy + (whole_hours_energy 100 70 (j + int k) - whole_hours_energy 100 70 j)
           < 2 powi (e + 53)"
  shows "base_energy_loop_double ''server'' (j * US_PER_HOUR) end_date energy =
         base_energy_loop_double ''server'' ((j + int k) * US_PER_HOUR) end_date
           (energy + (whole_hours_energy 100 70 (j + int k) - whole_hours_energy 100 70 j))"
  using double_loop_whole_hours [of "''server''" 100 70 e j k end_date energy m] assms
  by (simp add: power_lookup_simps)

lemma three_seconds_hours_1_to_6:
  "base_energy_loop_double ''server'' (1 * US_PER_HOUR) (3000000 + timedelta_days 7)
     (1230426812256529 / 17592186044416) =
   base_energy_loop_double ''server'' (7 * US_PER_HOUR) (3000000 + timedelta_days 7)
     (8619144950911249 / 17592186044416)"
  using three_seconds_run [of 1 6 "3000000 + timedelta_days 7"
      "1230426812256529 / 17592186044416" 1230426812256529 "- 44"]
  by (simp add: whole_hours_energy_server timedelta_days_def US_PER_HOUR_def power_int_minus)


lemma server_night_hour_step:
  assumes "scheduled_power ''server'' (j * US_PER_HOUR) = Inr 70"
    and "(j + 1) * US_PER_HOUR \<le> end_date"
  shows "base_energy_loop_double ''server'' (j * US_PER_HOUR) end_date energy =
         base_energy_loop_double ''server'' ((j + 1) * US_PER_HOUR) end_date (fl (energy + 70))"
proof -
  have jd: "(j * US_PER_HOUR) div US_PER_HOUR = j"
    using US_PER_HOUR_pos by simp
  have nf: "next_full_hour (j * US_PER_HOUR) = (j + 1) * US_PER_HOUR"
    by (simp add: next_full_hour_def jd distrib_right)
  have "j * US_PER_HOUR < (j + 1) * US_PER_HOUR"
    using US_PER_HOUR_pos by (simp add: distrib_right)
  with assms(2) have lt: "j * US_PER_HOUR < end_date" by simp
  have "base_energy_loop_double ''server'' (j * US_PER_HOUR) end_date energy =
        base_energy_loop_double ''server'' (next_full_hour (j * US_PER_HOUR)) end_date
          (fl (energy + fl (70 * hours_between_double (j * US_PER_HOUR)
             (next_full_hour (j * US_PER_HOUR)))))"
    using lt assms(1)
  proof (rule double_loop_step)
    show "next_full_hour (j * US_PER_HOUR) \<le> end_date"
      using assms(2) by (simp only: nf)
  qed
  then show ?thesis
    by (simp only: nf hours_between_double_whole fl_three_seconds)
qed

lemma three_seconds_hour_7:
  "base_energy_loop_double ''server'' (7 * US_PER_HOUR) (3000000 + timedelta_days 7)
     (8619144950911249 / 17592186044416) =
   base_energy_loop_double ''server'' (8 * US_PER_HOUR) (3000000 + timedelta_days 7)
     (615662373376273 / 1099511627776)"
proof -
  have "base_energy_loop_double ''server'' (7 * US_PER_HOUR) (3000000 + timedelta_days 7)
          (8619144950911249 / 17592186044416) =
        base_energy_loop_double ''server'' ((7 + 1) * US_PER_HOUR) (3000000 + timedelta_days 7)
          (fl (8619144950911249 / 17592186044416 + 70))"
    using server_night_power(2)
    by (rule server_night_hour_step) (simp add: timedelta_days_def US_PER_HOUR_def)
  then show ?thesis
    by (simp only: fl_three_seconds) simp
qed

lemma three_seconds_hours_8_to_95:
  "base_energy_loop_double ''server'' (8 * US_PER_HOUR) (3000000 + timedelta_days 7)
     (615662373376273 / 1099511627776) =
   base_energy_loop_double ''server'' (96 * US_PER_HOUR) (3000000 + timedelta_days 7)
     (8971950744473873 / 1099511627776)"
  using three_seconds_run [of 8 88 "3000000 + timedelta_days 7"
      "615662373376273 / 1099511627776" 615662373376273 "- 40"]
  by (simp add: whole_hours_energy_server timedelta_days_def US_PER_HOUR_def power_int_minus)

lemma three_seconds_hour_96:
  "base_energy_loop_double ''server'' (96 * US_PER_HOUR) (3000000 + timedelta_days 7)
     (8971950744473873 / 1099511627776) =
   base_energy_loop_double ''server'' (97 * US_PER_HOUR) (3000000 + timedelta_days 7)
     (565557284901137 / 68719476736)"
proof -
  have "base_energy_loop_double ''server'' (96 * US_PER_HOUR) (3000000 + timedelta_days 7)
          (8971950744473873 / 1099511627776) =
        base_energy_loop_double ''server'' ((96 + 1) * US_PER_HOUR) (3000000 + timedelta_days 7)
          (fl (8971950744473873 / 1099511627776 + 70))"
    using server_night_power(3)
    by (rule server_night_hour_step) (simp add: timedelta_days_def US_PER_HOUR_def)
  then show ?thesis
    by (simp only: fl_three_seconds) simp
qed

lemma three_seconds_hours_97_to_167:
  "base_energy_loop_double ''server'' (97 * US_PER_HOUR) (3000000 + timedelta_days 7)
     (565557284901137 / 68719476736) =
   base_energy_loop_double ''server'' (168 * US_PER_HOUR) (3000000 + timedelta_days 7)
     (981310119153937 / 68719476736)"
  using three_seconds_run [of 97 71 "3000000 + timedelta_days 7"
      "565557284901137 / 68719476736" 565557284901137 "- 36"]
  by (simp add: whole_hours_energy_server timedelta_days_def US_PER_HOUR_def power_int_minus)

lemma three_seconds_last_step:
  "base_energy_loop_double ''server'' (168 * US_PER_HOUR) (3000000 + timedelta_days 7)
     (981310119153937 / 68719476736) =
   Inr (7850513022320639 / 549755813888)"
proof -
  have "(of_int (3000000 + timedelta_days 7 - 168 * US_PER_HOUR) :: rat) / 1000000 =
        3000000 / 1000000"
    by (simp add: timedelta_days_def)
  then have "total_seconds (168 * US_PER_HOUR) (3000000 + timedelta_days 7) = 3"
    by (simp only: total_seconds_def fl_three_seconds)
  then have h: "hours_between_double (168 * US_PER_HOUR) (3000000 + timedelta_days 7) =
      7686143364045647 / 9223372036854775808"
    by (simp only: hours_between_double_def fl_three_seconds)
  have "base_energy_loop_double ''server'' (168 * US_PER_HOUR) (3000000 + timedelta_days 7)
          (981310119153937 / 68719476736) =
        Inr (fl (981310119153937 / 68719476736 +
               fl (70 * hours_between_double (168 * US_PER_HOUR) (3000000 + timedelta_days 7))))"
    by (rule double_loop_last_step [OF _ server_night_power(4)])
      (simp_all add: next_full_hour_def timedelta_days_def US_PER_HOUR_def)
  then show ?thesis
    by (simp only: h fl_three_seconds)
qed

text \<open>
  The claim as stated fails for this window: the code returns \<open>14279.999999999998\<close>, one
  unit in the last place below \<open>14280\<close>.
\<close>

theorem base_energy_server_week_three_seconds:
  "calculate_base_energy_double ''server'' 3000000 (3000000 + timedelta_days 7) =
     Inr (14280 - 1 / 549755813888)"
proof -
  have "calculate_base_energy_double ''server'' 3000000 (3000000 + timedelta_days 7) =
        base_energy_loop_double ''server'' 3000000 (3000000 + timedelta_days 7) 0"
    by (simp add: calculate_base_energy_double_def)
  also have "\<dots> = Inr (7850513022320639 / 549755813888)"
    by (simp only: three_seconds_first_hour three_seconds_hours_1_to_6 three_seconds_hour_7
        three_seconds_hours_8_to_95 three_seconds_hour_96 three_seconds_hours_97_to_167
        three_seconds_last_step)
  also have "(7850513022320639 / 549755813888 :: rat) = 14280 - 1 / 549755813888"
    by simp
  finally show ?thesis .
qed


subsection \<open>Events and the event overlay\<close>

text \<open>
  An event is a dictionary read from JSON. Its fields are kept as the parsing code sees
  them. \<open>duration_event\<close> is a string or a number handed to \<open>float(...)\<close>: the field
  records whether that call yields a finite number, a NaN or an infinity, or raises
  \<open>ValueError\<close> or \<open>TypeError\<close>; an absent key takes the default \<open>'0'\<close>. A timestamp is
  an ISO-8601 string handed to \<open>datetime.fromisoformat\<close>: the field records whether the
  key is absent or empty, the string is rejected with \<open>ValueError\<close>, or it denotes an
  instant (the time zone suffix, when there is one, is dropped without conversion).
\<close>

datatype duration_field =
    DurationAbsent
  | DurationNumber rat
  | DurationNaN
  | DurationInfinite
  | DurationInvalid

datatype timestamp_field =
    TimestampAbsent
  | TimestampInvalid
  | Timestamp datetime

record event =
  event_id :: "string option"
  event_type :: "string option"
  timestamp_start_event :: timestamp_field
  timestamp_end_event :: timestamp_field
  duration_event :: duration_field
  failure_probability :: "rat option"
  stored_at :: "string option"

text \<open>\<open>s.startswith(p)\<close> and \<open>needle in hay\<close> on strings.\<close>

fun str_startswith :: "string \<Rightarrow> string \<Rightarrow> bool" where
  "str_startswith s [] = True"
| "str_startswith [] (p # ps) = False"
| "str_startswith (c # cs) (p # ps) = (c = p \<and> str_startswith cs ps)"

fun str_contains :: "string \<Rightarrow> string \<Rightarrow> bool" where
  "str_contains needle [] = (needle = [])"
| "str_contains needle (c # cs) = (str_startswith (c # cs) needle \<or> str_contains needle cs)"

text \<open>\<open>int(x)\<close> on a finite float truncates towards zero.\<close>

definition int_of_float :: "rat \<Rightarrow> int" where
  "int_of_float r = (if 0 \<le> r then \<lfloor>r\<rfloor> else \<lceil>r\<rceil>)"

text \<open>
  \<open>int(float(duration_str))\<close> inside \<open>try ... except (ValueError, TypeError): continue\<close>.
  \<open>None\<close> stands for \<open>continue\<close>. The \<open>OverflowError\<close> that \<open>int\<close> raises on an infinity
  is not among the caught exceptions.
\<close>

definition parse_duration :: "duration_field \<Rightarrow> py_error + int option" where
  "parse_duration d =
     (case d of
        DurationAbsent \<Rightarrow> Inr (Some 0)
      | DurationNumber r \<Rightarrow> Inr (Some (int_of_float r))
      | DurationNaN \<Rightarrow> Inr None
      | DurationInfinite \<Rightarrow> Inl OverflowError
      | DurationInvalid \<Rightarrow> Inr None)"

text \<open>
  The second \<open>try\<close> block: the start instant of the event, or \<open>None\<close> for \<open>continue\<close>
  (start absent or empty, or either timestamp rejected by \<open>fromisoformat\<close>).
\<close>

definition parse_event_start :: "event \<Rightarrow> datetime option" where
  "parse_event_start ev =
     (case timestamp_start_event ev of
        TimestampAbsent \<Rightarrow> None
      | TimestampInvalid \<Rightarrow> None
      | Timestamp event_start \<Rightarrow>
          (case timestamp_end_event ev of
             TimestampInvalid \<Rightarrow> None
           | TimestampAbsent \<Rightarrow> Some event_start
           | Timestamp event_end \<Rightarrow> Some event_start))"

definition power_during_event :: "string \<Rightarrow> datetime \<Rightarrow> py_error + rat" where
  "power_during_event rt event_start =
     (if rt = ''internet_gateway'' then power_lookup ''internet_gateway'' ''always''
      else scheduled_power rt event_start)"

text \<open>The \<open>if / elif\<close> chain on the event type, applied to the running total.\<close>

definition apply_event_type :: "string \<Rightarrow> rat \<Rightarrow> rat \<Rightarrow> rat \<Rightarrow> rat" where
  "apply_event_type et power_w duration_hours adjusted_energy =
     (if str_contains ''maintenance_stop'' et \<or> str_contains ''failure'' et
      then adjusted_energy - power_w * duration_hours
      else if et = ''cpu_overflow'' \<or> et = ''cpu_overload''
      then adjusted_energy + power_w * duration_hours * (1 / 4)
      else if str_contains ''update'' et
      then adjusted_energy + power_w * duration_hours * (1 / 10)
      else adjusted_energy)"

text \<open>One pass of \<open>for event in events\<close>: the new running total, or the exception.\<close>

definition adjust_for_event ::
  "string \<Rightarrow> datetime \<Rightarrow> datetime \<Rightarrow> event \<Rightarrow> rat \<Rightarrow> py_error + rat" where
  "adjust_for_event rt start_date end_date ev adjusted_energy =
     (case parse_duration (duration_event ev) of
        Inl e \<Rightarrow> Inl e
      | Inr None \<Rightarrow> Inr adjusted_energy
      | Inr (Some duration_seconds) \<Rightarrow>
          (case parse_event_start ev of
             None \<Rightarrow> Inr adjusted_energy
           | Some event_start \<Rightarrow>
               if event_start < start_date \<or> event_start > end_date then Inr adjusted_energy
               else
                 (case power_during_event rt event_start of
                    Inl e \<Rightarrow> Inl e
                  | Inr power_w \<Rightarrow>
                      Inr (apply_event_type (case event_type ev of None \<Rightarrow> [] | Some et \<Rightarrow> et)
                             power_w (of_int duration_seconds / 3600) adjusted_energy))))"

fun adjust_events_loop ::
  "string \<Rightarrow> datetime \<Rightarrow> datetime \<Rightarrow> event list \<Rightarrow> rat \<Rightarrow> py_error + rat" where
  "adjust_events_loop rt start_date end_date [] adjusted_energy = Inr adjusted_energy"
| "adjust_events_loop rt start_date end_date (ev # events) adjusted_energy =
     (case adjust_for_event rt start_date end_date ev adjusted_energy of
        Inl e \<Rightarrow> Inl e
      | Inr adjusted_energy' \<Rightarrow> adjust_events_loop rt start_date end_date events adjusted_energy')"

definition adjust_energy_for_events ::
  "rat \<Rightarrow> string \<Rightarrow> event list \<Rightarrow> datetime \<Rightarrow> datetime \<Rightarrow> py_error + rat" where
  "adjust_energy_for_events base_energy rt events start_date end_date =
     (case adjust_events_loop rt start_date end_date events base_energy of
        Inl e \<Rightarrow> Inl e
      | Inr adjusted_energy \<Rightarrow> Inr (max 0 adjusted_energy))"


text \<open>A two-hour maintenance stop that starts at 10:00 on the first day.\<close>

definition example_stop_event :: event where
  "example_stop_event =
     \<lparr>event_id = Some ''e1'', event_type = Some ''hardware_maintenance_stop'',
      timestamp_start_event = Timestamp (10 * US_PER_HOUR), timestamp_end_event = TimestampAbsent,
      duration_event = DurationNumber 7200, failure_probability = None, stored_at = None\<rparr>"

lemma power_during_event_inventory:
  assumes "rt \<in> fst ` set PRODUCTION_INVENTORY"
  shows "\<exists>w. power_during_event rt t = Inr w"
proof -
  from assms consider "rt = ''server''" | "rt = ''workstation''" | "rt = ''automate''"
    | "rt = ''internet_gateway''"
    by (auto simp: PRODUCTION_INVENTORY_def)
  then show ?thesis
    by cases (simp_all add: power_during_event_def scheduled_power_def power_lookup_simps)
qed

lemma adjust_for_event_returns:
  assumes "duration_event ev \<noteq> DurationInfinite" "rt \<in> fst ` set PRODUCTION_INVENTORY"
  shows "\<exists>v. adjust_for_event rt s e ev a = Inr v"
proof -
  obtain d where d: "parse_duration (duration_event ev) = Inr d"
    using assms(1) by (cases "duration_event ev") (simp_all add: parse_duration_def)
  show ?thesis
  proof (cases d)
    case None
    with d show ?thesis by (simp add: adjust_for_event_def)
  next
    case (Some n)
    show ?thesis
    proof (cases "parse_event_start ev")
      case None
      with d Some show ?thesis by (simp add: adjust_for_event_def)
    next
      case (Some t)
      obtain w where "power_during_event rt t = Inr w"
        using power_during_event_inventory [OF assms(2)] by blast
      with d \<open>d = Some n\<close> Some show ?thesis by (simp add: adjust_for_event_def)
    qed
  qed
qed

lemma adjust_events_loop_returns:
  assumes "rt \<in> fst ` set PRODUCTION_INVENTORY"
  shows "\<forall>ev\<in>set events. duration_event ev \<noteq> DurationInfinite \<Longrightarrow>
         \<exists>v. adjust_events_loop rt s e events a = Inr v"
proof (induction events arbitrary: a)
  case Nil
  show ?case by simp
next
  case (Cons ev events)
  obtain v where "adjust_for_event rt s e ev a = Inr v"
    using adjust_for_event_returns [OF _ assms, of ev s e a] Cons.prems by auto
  moreover obtain v' where "adjust_events_loop rt s e events v = Inr v'"
    using Cons.IH [of v] Cons.prems by auto
  ultimately show ?case by simp
qed

text \<open>
  Claim C5. Whatever the resource type, the window and the events (overlapping or not, with
  timestamps or durations that do not parse), a value returned by the event overlay is at
  least 0; and the overlay does return a value for every resource type of the inventory
  when no duration is an infinity.
\<close>

theorem adjusted_energy_nonneg:
  "(\<forall>v. adjust_energy_for_events base_energy rt events start_date end_date = Inr v \<longrightarrow> 0 \<le> v) \<and>
   (rt \<in> fst ` set PRODUCTION_INVENTORY \<and>
    (\<forall>ev\<in>set events. duration_event ev \<noteq> DurationInfinite) \<longrightarrow>
    (\<exists>v. adjust_energy_for_events base_energy rt events start_date end_date = Inr v \<and> 0 \<le> v))"
proof (intro conjI allI impI)
  fix v
  assume "adjust_energy_for_events base_energy rt events start_date end_date = Inr v"
  then show "0 \<le> v"
    by (auto simp: adjust_energy_for_events_def split: sum.splits)
next
  assume a: "rt \<in> fst ` set PRODUCTION_INVENTORY \<and>
    (\<forall>ev\<in>set events. duration_event ev \<noteq> DurationInfinite)"
  then obtain v where "adjust_events_loop rt start_date end_date events base_energy = Inr v"
    using adjust_events_loop_returns [of rt events start_date end_date base_energy] by blast
  then show "\<exists>v. adjust_energy_for_events base_energy rt events start_date end_date = Inr v \<and> 0 \<le> v"
    by (simp add: adjust_energy_for_events_def)
qed


lemma adjust_for_event_participating:
  assumes "parse_duration (duration_event ev) = Inr (Some d)"
    and "parse_event_start ev = Some t"
    and "start_date \<le> t" "t \<le> end_date"
    and "power_during_event rt t = Inr w"
  shows "adjust_for_event rt start_date end_date ev a =
         Inr (apply_event_type (case event_type ev of None \<Rightarrow> [] | Some et \<Rightarrow> et)
                w (of_int d / 3600) a)"
  using assms by (simp add: adjust_for_event_def)

lemma apply_event_type_stop:
  assumes "str_contains ''maintenance_stop'' et \<or> str_contains ''failure'' et"
  shows "apply_event_type et w h a = a - w * h"
  using assms by (simp add: apply_event_type_def)



lemma two_stop_events_adjusted:
  assumes "event_type ev1 = Some et1" "event_type ev2 = Some et2"
    and "str_contains ''maintenance_stop'' et1 \<or> str_contains ''failure'' et1"
    and "str_contains ''maintenance_stop'' et2 \<or> str_contains ''failure'' et2"
    and "parse_duration (duration_event ev1) = Inr (Some d1)"
    and "parse_duration (duration_event ev2) = Inr (Some d2)"
    and "parse_event_start ev1 = Some t1" "parse_event_start ev2 = Some t2"
    and "start_date \<le> t1" "t1 \<le> end_date" "start_date \<le> t2" "t2 \<le> end_date"
    and "power_during_event rt t1 = Inr w1" "power_during_event rt t2 = Inr w2"
  shows "adjust_energy_for_events base_energy rt [ev1, ev2] start_date end_date =
         Inr (max 0 (base_energy - w1 * (of_int d1 / 3600) - w2 * (of_int d2 / 3600)))"
proof -
  have "adjust_for_event rt start_date end_date ev1 base_energy =
        Inr (base_energy - w1 * (of_int d1 / 3600))"
    using adjust_for_event_participating [OF assms(5,7,9,10,13), of base_energy]
    by (simp add: assms(1) apply_event_type_stop [OF assms(3)])
  moreover have "adjust_for_event rt start_date end_date ev2
          (base_energy - w1 * (of_int d1 / 3600)) =
        Inr (base_energy - w1 * (of_int d1 / 3600) - w2 * (of_int d2 / 3600))"
    using adjust_for_event_participating [OF assms(6,8,11,12,14),
        of "base_energy - w1 * (of_int d1 / 3600)"]
    by (simp add: assms(2) apply_event_type_stop [OF assms(4)])
  ultimately show ?thesis
    by (simp add: adjust_energy_for_events_def)
qed


lemma example_stop_event_simps:
  "event_type example_stop_event = Some ''hardware_maintenance_stop''"
  "duration_event example_stop_event = DurationNumber 7200"
  "timestamp_start_event example_stop_event = Timestamp (10 * US_PER_HOUR)"
  "timestamp_end_event example_stop_event = TimestampAbsent"
  by (simp_all add: example_stop_event_def)

lemma example_stop_event_parse:
  "parse_duration (duration_event example_stop_event) = Inr (Some 7200)"
  "parse_event_start example_stop_event = Some (10 * US_PER_HOUR)"
  by (simp_all add: example_stop_event_simps parse_duration_def int_of_float_def
      parse_event_start_def)

lemma example_stop_event_in_week:
  "0 \<le> 10 * US_PER_HOUR" "10 * US_PER_HOUR \<le> timedelta_days 7"
  "hour (10 * US_PER_HOUR) = 10"
  by (simp_all add: US_PER_HOUR_def timedelta_days_def hour_def)

lemma example_stop_event_power: "power_during_event ''server'' (10 * US_PER_HOUR) = Inr 100"
  by (simp add: power_during_event_def scheduled_power_def power_lookup_simps
      example_stop_event_in_week PRODUCTION_START_HOUR_def PRODUCTION_END_HOUR_def)

theorem adjusted_energy_nonneg_witness:
  "\<exists>v. adjust_energy_for_events 14280 ''server'' [example_stop_event] 0 (timedelta_days 7) = Inr v
       \<and> 0 \<le> v"
proof -
  have "''server'' \<in> fst ` set PRODUCTION_INVENTORY"
    by (simp add: PRODUCTION_INVENTORY_def)
  moreover have "\<forall>ev\<in>set [example_stop_event]. duration_event ev \<noteq> DurationInfinite"
    by (simp add: example_stop_event_simps)
  ultimately show ?thesis
    using adjusted_energy_nonneg [of 14280 "''server''" "[example_stop_event]" 0 "timedelta_days 7"]
    by blast
qed


lemma example_stop_event_step:
  "adjust_for_event ''server'' 0 (timedelta_days 7) example_stop_event a = Inr (a - 200)"
  using adjust_for_event_participating [OF example_stop_event_parse
      example_stop_event_in_week(1,2) example_stop_event_power, of a]
  by (simp add: example_stop_event_simps(1) apply_event_type_def)

text \<open>
  Two identical, fully overlapping two-hour stops take 400 Wh off the week, not the 200 Wh
  that the two hours contribute: the shared interval is suppressed twice.
\<close>

theorem overlapping_stops_suppressed_twice:
  "adjust_energy_for_events 14280 ''server'' [example_stop_event, example_stop_event] 0
     (timedelta_days 7) = Inr 13880 \<and>
   adjust_energy_for_events 14280 ''server'' [example_stop_event] 0 (timedelta_days 7) = Inr 14080"
  by (simp add: adjust_energy_for_events_def example_stop_event_step)

section \<open>Hourly calculator of the two-agents version (agent_monitor.py)\<close>

text \<open>
  \<open>calculate_energy_for_interval\<close> walks the window in steps of one hour from its start
  and, in each step, adds the modifiers of the events that overlap the step; the sum is
  floored at \<open>-1.0\<close> before it scales the base power. Its events carry parsed instants;
  the modifier of an event is looked up by its lower-cased type.
\<close>

record resource_info =
  ri_count :: nat
  day_power :: rat
  night_power :: rat

definition RESOURCES :: "string \<Rightarrow> resource_info option" where
  "RESOURCES rt =
     (if rt = ''server'' then Some \<lparr>ri_count = 10, day_power = 100, night_power = 70\<rparr>
      else if rt = ''workstation'' then Some \<lparr>ri_count = 20, day_power = 60, night_power = 0\<rparr>
      else if rt = ''automate'' then Some \<lparr>ri_count = 5, day_power = 300, night_power = 0\<rparr>
      else if rt = ''internet_gateway''
      then Some \<lparr>ri_count = 1, day_power = 50, night_power = 50\<rparr>
      else None)"

definition EVENT_MODIFIERS :: "(string \<times> rat) list" where
  "EVENT_MODIFIERS =
     [(''cpu_overflow'', 1),
      (''cpu_overload'', 1),
      (''cpu_max_heat_threshold'', 8 / 10),
      (''fan_failure'', 5 / 10),
      (''software_update'', - (3 / 10)),
      (''operating_system_update'', - (3 / 10)),
      (''software_service_failure'', - (7 / 10)),
      (''operating_system_failure'', - 1),
      (''hardware_failure'', - 1),
      (''hardware_maintenance_stop'', - 1)]"

record parsed_event =
  ev_start_dt :: datetime
  ev_end_dt :: datetime
  pe_event_type :: string

definition str_lower :: "string \<Rightarrow> string" where
  "str_lower s =
     map (\<lambda>c. if 65 \<le> (of_char c :: nat) \<and> (of_char c :: nat) \<le> 90
              then char_of ((of_char c :: nat) + 32) else c) s"

definition event_modifier :: "parsed_event \<Rightarrow> rat" where
  "event_modifier ev =
     (case map_of EVENT_MODIFIERS (str_lower (pe_event_type ev)) of
        None \<Rightarrow> 0 | Some mod_val \<Rightarrow> mod_val)"

fun modifier_loop :: "parsed_event list \<Rightarrow> datetime \<Rightarrow> datetime \<Rightarrow> rat \<Rightarrow> rat" where
  "modifier_loop [] current_time next_hour modifier_sum = modifier_sum"
| "modifier_loop (ev # evs) current_time next_hour modifier_sum =
     (if max current_time (ev_start_dt ev) < min next_hour (ev_end_dt ev)
      then modifier_loop evs current_time next_hour (modifier_sum + event_modifier ev)
      else modifier_loop evs current_time next_hour modifier_sum)"

definition monitor_base_power :: "string \<Rightarrow> datetime \<Rightarrow> rat" where
  "monitor_base_power rt current_time =
     (case RESOURCES rt of
        None \<Rightarrow> 0
      | Some res_info \<Rightarrow>
          if 8 \<le> hour current_time \<and> hour current_time < 20
          then day_power res_info else night_power res_info)"

definition interval_end :: "datetime \<Rightarrow> datetime \<Rightarrow> datetime" where
  "interval_end current_time end_dt =
     (if current_time + US_PER_HOUR > end_dt then end_dt else current_time + US_PER_HOUR)"

definition interval_energy :: "string \<Rightarrow> datetime \<Rightarrow> datetime \<Rightarrow> parsed_event list \<Rightarrow> rat" where
  "interval_energy rt current_time next_hour evs =
     (let duration_hours = hours_between current_time next_hour;
          base_power = monitor_base_power rt current_time;
          modifier_sum = modifier_loop evs current_time next_hour 0;
          effective_modifier = max (- 1) modifier_sum;
          power_w = base_power * (1 + effective_modifier)
      in power_w * duration_hours)"

lemma interval_end_gt: "current_time < end_dt \<Longrightarrow> current_time < interval_end current_time end_dt"
  using US_PER_HOUR_pos by (simp add: interval_end_def)

function calculate_energy_loop ::
  "string \<Rightarrow> datetime \<Rightarrow> datetime \<Rightarrow> parsed_event list \<Rightarrow> rat \<Rightarrow> rat" where
  "calculate_energy_loop rt current_time end_dt evs total_wh =
     (if current_time < end_dt then
        calculate_energy_loop rt (interval_end current_time end_dt) end_dt evs
          (total_wh +
             interval_energy rt current_time (interval_end current_time end_dt) evs)
      else total_wh)"
  by pat_completeness auto
termination calculate_energy_loop
proof (relation "measure (\<lambda>(rt, current_time, end_dt, evs, total). nat (end_dt - current_time))")
  show "wf (measure (\<lambda>(rt, current_time, end_dt, evs, total). nat (end_dt - current_time)))"
    by simp
next
  fix rt :: string and current_time end_dt :: datetime and evs :: "parsed_event list"
    and total_wh :: rat
  assume "current_time < end_dt"
  then show "((rt, interval_end current_time end_dt, end_dt, evs,
               total_wh +
                 interval_energy rt current_time (interval_end current_time end_dt) evs),
              (rt, current_time, end_dt, evs, total_wh))
             \<in> measure (\<lambda>(rt, current_time, end_dt, evs, total). nat (end_dt - current_time))"
    using interval_end_gt [of current_time end_dt] by simp
qed

declare calculate_energy_loop.simps [simp del]

definition calculate_energy_for_interval ::
  "string \<Rightarrow> datetime \<Rightarrow> datetime \<Rightarrow> parsed_event list \<Rightarrow> rat" where
  "calculate_energy_for_interval rt start_dt end_dt evs =
     calculate_energy_loop rt start_dt end_dt evs 0"

lemma monitor_base_power_nonneg: "0 \<le> monitor_base_power rt t"
  by (simp add: monitor_base_power_def RESOURCES_def)

lemma interval_energy_nonneg:
  "current_time \<le> next_hour \<Longrightarrow> 0 \<le> interval_energy rt current_time next_hour evs"
  using US_PER_HOUR_pos monitor_base_power_nonneg [of rt current_time]
  by (simp add: interval_energy_def Let_def hours_between_def)

lemma calculate_energy_loop_nonneg:
  "0 \<le> acc \<Longrightarrow> 0 \<le> calculate_energy_loop rt current_time end_dt evs acc"
proof (induction rt current_time end_dt evs acc rule: calculate_energy_loop.induct)
  case (1 rt current_time end_dt evs total_wh)
  show ?case
  proof (cases "current_time < end_dt")
    case True
    have "0 \<le> interval_energy rt current_time (interval_end current_time end_dt) evs"
      using interval_end_gt [OF True] by (intro interval_energy_nonneg) simp
    with "1.prems" have "0 \<le> total_wh +
        interval_energy rt current_time (interval_end current_time end_dt) evs" by simp
    from "1.IH" [OF True this] True show ?thesis
      by (simp add: calculate_energy_loop.simps [of rt current_time end_dt])
  next
    case False
    with "1.prems" show ?thesis
      by (simp add: calculate_energy_loop.simps [of rt current_time end_dt])
  qed
qed

lemma interval_energy_two_stops:
  assumes "ev_start_dt ev2 = ev_start_dt ev1" "ev_end_dt ev2 = ev_end_dt ev1"
    and "event_modifier ev1 = - 1" "event_modifier ev2 = - 1"
  shows "interval_energy rt c n [ev1, ev2] = interval_energy rt c n [ev1]"
  using assms by (simp add: interval_energy_def Let_def)

lemma calculate_energy_loop_two_stops:
  assumes "ev_start_dt ev2 = ev_start_dt ev1" "ev_end_dt ev2 = ev_end_dt ev1"
    and "event_modifier ev1 = - 1" "event_modifier ev2 = - 1"
  shows "calculate_energy_loop rt c e [ev1, ev2] acc = calculate_energy_loop rt c e [ev1] acc"
proof -
  have "evs = [ev1, ev2] \<Longrightarrow>
        calculate_energy_loop rt c e evs acc = calculate_energy_loop rt c e [ev1] acc"
    for evs
  proof (induction rt c e evs acc rule: calculate_energy_loop.induct)
    case (1 rt current_time end_dt evs total_wh)
    show ?case
    proof (cases "current_time < end_dt")
      case True
      from "1.IH" [OF True "1.prems"] True show ?thesis
        by (simp add: calculate_energy_loop.simps [of rt current_time end_dt]
            "1.prems" interval_energy_two_stops [OF assms])
    next
      case False
      then show ?thesis
        by (simp add: calculate_energy_loop.simps [of rt current_time end_dt])
    qed
  qed
  then show ?thesis by simp
qed


text \<open>
  Claim C1, as the code has it. In \<open>EnergyCalculator\<close>, two stop-class events that start
  inside the window each subtract their own power times duration from the running total,
  whether or not their intervals overlap; the only floor is the one applied to the final
  total. In the hourly calculator of the two-agents version, two events with the same
  interval and modifier \<open>-1.0\<close> give the energy that one of them gives, and the energy of
  any list of events is at least 0.
\<close>

theorem overlapping_stop_events:
  assumes "event_type ev1 = Some et1" "event_type ev2 = Some et2"
    and "str_contains ''maintenance_stop'' et1 \<or> str_contains ''failure'' et1"
    and "str_contains ''maintenance_stop'' et2 \<or> str_contains ''failure'' et2"
    and "parse_duration (duration_event ev1) = Inr (Some d1)"
    and "parse_duration (duration_event ev2) = Inr (Some d2)"
    and "parse_event_start ev1 = Some t1" "parse_event_start ev2 = Some t2"
    and "start_date \<le> t1" "t1 \<le> end_date" "start_date \<le> t2" "t2 \<le> end_date"
    and "power_during_event rt t1 = Inr w1" "power_during_event rt t2 = Inr w2"
    and "ev_start_dt p2 = ev_start_dt p1" "ev_end_dt p2 = ev_end_dt p1"
    and "event_modifier p1 = - 1" "event_modifier p2 = - 1"
  shows "adjust_energy_for_events base_energy rt [ev1, ev2] start_date end_date =
           Inr (max 0 (base_energy - w1 * (of_int d1 / 3600) - w2 * (of_int d2 / 3600))) \<and>
         calculate_energy_for_interval rt start_date end_date [p1, p2] =
           calculate_energy_for_interval rt start_date end_date [p1] \<and>
         0 \<le> calculate_energy_for_interval rt start_date end_date ps"
proof (intro conjI)
  show "adjust_energy_for_events base_energy rt [ev1, ev2] start_date end_date =
           Inr (max 0 (base_energy - w1 * (of_int d1 / 3600) - w2 * (of_int d2 / 3600)))"
    by (rule two_stop_events_adjusted [OF assms(1-14)])
  show "calculate_energy_for_interval rt start_date end_date [p1, p2] =
           calculate_energy_for_interval rt start_date end_date [p1]"
    unfolding calculate_energy_for_interval_def
    by (rule calculate_energy_loop_two_stops [OF assms(15-18)])
  show "0 \<le> calculate_energy_for_interval rt start_date end_date ps"
    unfolding calculate_energy_for_interval_def
    by (rule calculate_energy_loop_nonneg) simp
qed

text \<open>A maintenance stop from 10:00 to 12:00 on the first day, as the hourly calculator reads it.\<close>

definition example_parsed_stop :: parsed_event where
  "example_parsed_stop =
     \<lparr>ev_start_dt = 10 * US_PER_HOUR, ev_end_dt = 12 * US_PER_HOUR,
      pe_event_type = ''hardware_maintenance_stop''\<rparr>"

lemma example_parsed_stop_modifier: "event_modifier example_parsed_stop = - 1"
  by (simp add: event_modifier_def example_parsed_stop_def str_lower_def EVENT_MODIFIERS_def)

theorem overlapping_stop_events_witness:
  "adjust_energy_for_events 14280 ''server'' [example_stop_event, example_stop_event] 0
     (timedelta_days 7) = Inr 13880 \<and>
   calculate_energy_for_interval ''server'' 0 (timedelta_days 7)
     [example_parsed_stop, example_parsed_stop] =
   calculate_energy_for_interval ''server'' 0 (timedelta_days 7) [example_parsed_stop] \<and>
   0 \<le> calculate_energy_for_interval ''server'' 0 (timedelta_days 7)
         [example_parsed_stop, example_parsed_stop]"
proof -
  have "adjust_energy_for_events 14280 ''server'' [example_stop_event, example_stop_event] 0
          (timedelta_days 7) =
        Inr (max 0 (14280 - 100 * (of_int 7200 / 3600) - 100 * (of_int 7200 / 3600))) \<and>
      calculate_energy_for_interval ''server'' 0 (timedelta_days 7)
        [example_parsed_stop, example_parsed_stop] =
      calculate_energy_for_interval ''server'' 0 (timedelta_days 7) [example_parsed_stop] \<and>
      0 \<le> calculate_energy_for_interval ''server'' 0 (timedelta_days 7)
            [example_parsed_stop, example_parsed_stop]"
    by (rule overlapping_stop_events [OF example_stop_event_simps(1)
          example_stop_event_simps(1) _ _ example_stop_event_parse(1) example_stop_event_parse(1)
          example_stop_event_parse(2) example_stop_event_parse(2)
          example_stop_event_in_week(1,2) example_stop_event_in_week(1,2)
          example_stop_event_power example_stop_event_power refl refl
          example_parsed_stop_modifier example_parsed_stop_modifier])
       simp_all
  then show ?thesis by simp
qed


section \<open>Event store (database.py)\<close>

text \<open>
  \<open>Database.data\<close> is a dictionary from resource identifier to a record with the keys
  \<open>type\<close>, \<open>events\<close>, \<open>created_at\<close> and \<open>updated_at\<close>. It is an association list: lookup
  is \<open>map_of\<close>, and \<open>AList.update\<close> overwrites a present key in place and appends an absent
  one, as assignment to a Python dictionary does. \<open>add_event\<close> reads the clock at four
  places; \<open>now k\<close> is the reading taken at the \<open>k\<close>-th of them. The function returns the
  new contents of \<open>self.data\<close>.
\<close>

record resource_record =
  rtype :: "string option"
  events :: "event list"
  created_at :: string
  updated_at :: string

type_synonym database = "(string \<times> resource_record) list"

definition events_of :: "database \<Rightarrow> string \<Rightarrow> event list" where
  "events_of data resource_id =
     (case map_of data resource_id of None \<Rightarrow> [] | Some r \<Rightarrow> events r)"

fun replace_first :: "string option \<Rightarrow> event \<Rightarrow> event list \<Rightarrow> event list" where
  "replace_first eid ev [] = []"
| "replace_first eid ev (e # es) =
     (if event_id e = eid then ev # es else e # replace_first eid ev es)"

definition add_event ::
  "database \<Rightarrow> string \<Rightarrow> string option \<Rightarrow> event \<Rightarrow> (nat \<Rightarrow> string) \<Rightarrow> database" where
  "add_event data resource_id resource_type ev now =
     (let data1 =
            (if map_of data resource_id = None
             then AList.update resource_id
                    \<lparr>rtype = resource_type, events = [], created_at = now 0, updated_at = now 1\<rparr>
                    data
             else data);
          ev1 = (if stored_at ev = None then ev\<lparr>stored_at := Some (now 2)\<rparr> else ev)
      in case map_of data1 resource_id of
           None \<Rightarrow> data1
         | Some r \<Rightarrow>
             if \<not> list_ex (\<lambda>e. event_id e = event_id ev1) (events r)
             then AList.update resource_id
                    (r\<lparr>events := events r @ [ev1], updated_at := now 3\<rparr>) data1
             else AList.update resource_id
                    (r\<lparr>events := replace_first (event_id ev1) ev1 (events r),
                       updated_at := now 3\<rparr>) data1)"

lemma length_replace_first: "length (replace_first eid ev es) = length es"
  by (induction es) simp_all

lemma map_event_id_replace_first:
  "event_id ev = eid \<Longrightarrow> map event_id (replace_first eid ev es) = map event_id es"
  by (induction es) simp_all

lemma replace_first_list_update:
  "\<exists>e\<in>set es. event_id e = eid \<Longrightarrow>
   \<exists>i<length es. event_id (es ! i) = eid \<and> (\<forall>j<i. event_id (es ! j) \<noteq> eid) \<and>
      replace_first eid ev es = es[i := ev]"
proof (induction es)
  case Nil
  then show ?case by simp
next
  case (Cons e es)
  show ?case
  proof (cases "event_id e = eid")
    case True
    then show ?thesis by (intro exI [of _ 0]) simp
  next
    case False
    with Cons.prems have "\<exists>e\<in>set es. event_id e = eid" by simp
    from Cons.IH [OF this] obtain i where i: "i < length es" "event_id (es ! i) = eid"
      "\<forall>j<i. event_id (es ! j) \<noteq> eid" "replace_first eid ev es = es[i := ev]"
      by blast
    show ?thesis
    proof (intro exI [of _ "Suc i"] conjI allI impI)
      fix j assume "j < Suc i"
      then show "event_id ((e # es) ! j) \<noteq> eid"
        using False i(3) by (cases j) simp_all
    qed (use i False in simp_all)
  qed
qed

lemma events_of_add_event_same:
  "events_of (add_event data rid rt ev now) rid =
     (let ev1 = (if stored_at ev = None then ev\<lparr>stored_at := Some (now 2)\<rparr> else ev);
          es = events_of data rid
      in if list_ex (\<lambda>e. event_id e = event_id ev) es
         then replace_first (event_id ev) ev1 es else es @ [ev1])"
proof (cases "map_of data rid")
  case None
  then show ?thesis
    by (simp add: add_event_def events_of_def Let_def update_conv')
next
  case (Some r)
  then show ?thesis
    by (simp add: add_event_def events_of_def Let_def update_conv')
qed

lemma events_of_add_event_other:
  "rid' \<noteq> rid \<Longrightarrow> events_of (add_event data rid rt ev now) rid' = events_of data rid'"
proof (cases "map_of data rid")
  case None
  assume "rid' \<noteq> rid"
  with None show ?thesis
    by (simp add: add_event_def events_of_def Let_def update_conv')
next
  case (Some r)
  assume "rid' \<noteq> rid"
  with Some show ?thesis
    by (simp add: add_event_def events_of_def Let_def update_conv')
qed

text \<open>
  Claim C6. When the resource already stores an event with the identifier of the new
  event, \<open>add_event\<close> overwrites that entry at its position and the number of events of
  the resource is unchanged; and whenever identifiers are unique within every resource's
  event list before the call, they are unique after it.
\<close>

theorem add_event_upsert:
  "((\<exists>e\<in>set (events_of data rid). event_id e = event_id ev) \<longrightarrow>
      length (events_of (add_event data rid rt ev now) rid) = length (events_of data rid) \<and>
      (\<exists>i<length (events_of data rid).
          event_id (events_of data rid ! i) = event_id ev \<and>
          events_of (add_event data rid rt ev now) rid =
            (events_of data rid)
              [i := (if stored_at ev = None then ev\<lparr>stored_at := Some (now 2)\<rparr> else ev)])) \<and>
   ((\<forall>r. distinct (map event_id (events_of data r))) \<longrightarrow>
      (\<forall>r. distinct (map event_id (events_of (add_event data rid rt ev now) r))))"
proof (intro conjI impI allI)
  assume ex: "\<exists>e\<in>set (events_of data rid). event_id e = event_id ev"
  then have le: "list_ex (\<lambda>e. event_id e = event_id ev) (events_of data rid)"
    by (simp add: list_ex_iff)
  then show "length (events_of (add_event data rid rt ev now) rid) = length (events_of data rid)"
    by (simp add: events_of_add_event_same Let_def length_replace_first)
  from replace_first_list_update [OF ex] le
  show "\<exists>i<length (events_of data rid).
          event_id (events_of data rid ! i) = event_id ev \<and>
          events_of (add_event data rid rt ev now) rid =
            (events_of data rid)
              [i := (if stored_at ev = None then ev\<lparr>stored_at := Some (now 2)\<rparr> else ev)]"
    by (simp add: events_of_add_event_same Let_def) blast
next
  fix r
  assume d: "\<forall>r. distinct (map event_id (events_of data r))"
  show "distinct (map event_id (events_of (add_event data rid rt ev now) r))"
  proof (cases "r = rid")
    case False
    then show ?thesis using d by (simp add: events_of_add_event_other)
  next
    case True
    have d': "distinct (map event_id (events_of data rid))" using d by blast
    show ?thesis
    proof (cases "list_ex (\<lambda>e. event_id e = event_id ev) (events_of data rid)")
      case True
      then show ?thesis
        using d' \<open>r = rid\<close>
        by (simp add: events_of_add_event_same Let_def map_event_id_replace_first)
    next
      case False
      then have "event_id ev \<notin> event_id ` set (events_of data rid)"
        by (auto simp: list_ex_iff)
      with False show ?thesis
        using d' \<open>r = rid\<close>
        by (simp add: events_of_add_event_same Let_def)
    qed
  qed
qed

definition example_database :: database where
  "example_database =
     [(''server_1'', \<lparr>rtype = Some ''server'', events = [example_stop_event],
        created_at = ''t0'', updated_at = ''t0''\<rparr>)]"

theorem add_event_upsert_witness:
  "length (events_of (add_event example_database ''server_1'' (Some ''server'')
       (example_stop_event\<lparr>duration_event := DurationNumber 60\<rparr>) (\<lambda>n. ''t1'')) ''server_1'') = 1 \<and>
   distinct (map event_id (events_of (add_event example_database ''server_1'' (Some ''server'')
       (example_stop_event\<lparr>duration_event := DurationNumber 60\<rparr>) (\<lambda>n. ''t1'')) ''server_1''))"
proof -
  have e: "events_of example_database r = (if r = ''server_1'' then [example_stop_event] else [])" for r
    by (simp add: events_of_def example_database_def)
  have 1: "\<exists>e\<in>set (events_of example_database ''server_1'').
      event_id e = event_id (example_stop_event\<lparr>duration_event := DurationNumber 60\<rparr>)"
    by (simp add: e)
  have 2: "\<forall>r. distinct (map event_id (events_of example_database r))"
    by (simp add: e)
  show ?thesis
    using add_event_upsert [of example_database "''server_1''"
        "example_stop_event\<lparr>duration_event := DurationNumber 60\<rparr>" "Some ''server''" "\<lambda>n. ''t1''"]
      1 2
    by (simp add: e)
qed



section \<open>Prediction and narrative collaborator (llm_service.py)\<close>

text \<open>
  \<open>_call_llm\<close> catches every exception of the HTTP exchange and returns the empty string
  then, so the functions below start from the response string. \<open>json.loads\<close> and the
  conversion of a string by \<open>float(...)\<close> belong to the Python library: they are the
  parameters \<open>json_loads\<close> (\<open>None\<close> for \<open>JSONDecodeError\<close>) and \<open>float_of_str\<close> (\<open>None\<close> for
  \<open>ValueError\<close>). A Python float is a finite rational, an infinity or a NaN; comparisons
  with a NaN are false, and \<open>min\<close> and \<open>max\<close> keep their first argument unless the second
  compares strictly better.
\<close>

datatype py_float = Finite rat | PosInf | NegInf | NaN

datatype json =
    JNull
  | JBool bool
  | JInt int
  | JFloat py_float
  | JString string
  | JArray "json list"
  | JObject "(string \<times> json) list"

fun py_float_less :: "py_float \<Rightarrow> py_float \<Rightarrow> bool" where
  "py_float_less (Finite a) (Finite b) = (a < b)"
| "py_float_less (Finite a) PosInf = True"
| "py_float_less NegInf (Finite b) = True"
| "py_float_less NegInf PosInf = True"
| "py_float_less _ _ = False"

definition py_min :: "py_float \<Rightarrow> py_float \<Rightarrow> py_float" where
  "py_min a b = (if py_float_less b a then b else a)"

definition py_max :: "py_float \<Rightarrow> py_float \<Rightarrow> py_float" where
  "py_max a b = (if py_float_less a b then b else a)"

definition FLOAT_INT_LIMIT :: int where
  "FLOAT_INT_LIMIT = 2 ^ 1024 - 2 ^ 970"

text \<open>
  \<open>float(v)\<close> on a decoded JSON value. An integer too large for a double raises
  \<open>OverflowError\<close>; \<open>None\<close>, lists and dictionaries raise \<open>TypeError\<close>.
\<close>

fun float_of_json :: "(string \<Rightarrow> py_float option) \<Rightarrow> json \<Rightarrow> py_error + py_float" where
  "float_of_json float_of_str JNull = Inl TypeError"
| "float_of_json float_of_str (JBool b) = Inr (Finite (if b then 1 else 0))"
| "float_of_json float_of_str (JInt n) =
     (if \<bar>n\<bar> < FLOAT_INT_LIMIT then Inr (Finite (of_int n)) else Inl OverflowError)"
| "float_of_json float_of_str (JFloat x) = Inr x"
| "float_of_json float_of_str (JString s) =
     (case float_of_str s of None \<Rightarrow> Inl ValueError | Some x \<Rightarrow> Inr x)"
| "float_of_json float_of_str (JArray xs) = Inl TypeError"
| "float_of_json float_of_str (JObject kvs) = Inl TypeError"

text \<open>
  \<open>str.strip()\<close> removes the characters for which \<open>str.isspace()\<close> holds; among the
  code points below 256 these are the ones listed.
\<close>

definition py_isspace :: "char \<Rightarrow> bool" where
  "py_isspace c = (of_char c \<in> {9, 10, 11, 12, 13, 28, 29, 30, 31, 32, 133, 160 :: nat})"

definition strip :: "string \<Rightarrow> string" where
  "strip s = rev (dropWhile py_isspace (rev (dropWhile py_isspace s)))"

definition str_endswith :: "string \<Rightarrow> string \<Rightarrow> bool" where
  "str_endswith s p = str_startswith (rev s) (rev p)"

definition strip_code_fence :: "string \<Rightarrow> string" where
  "strip_code_fence response =
     (let r0 = strip response;
          r1 = (if str_startswith r0 ''```json'' then drop 7 r0 else r0);
          r2 = (if str_startswith r1 ''```'' then drop 3 r1 else r1);
          r3 = (if str_endswith r2 ''```'' then take (length r2 - 3) r2 else r2)
      in strip r3)"

definition severity_map :: "(string \<times> rat) list" where
  "severity_map =
     [(''hardware_failure'', 9 / 10),
      (''operating_system_failure'', 8 / 10),
      (''software_service_failure'', 6 / 10),
      (''cpu_overflow'', 5 / 10),
      (''hardware_maintenance_stop'', 2 / 10),
      (''software_maintenance_stop'', 1 / 10),
      (''software_update'', 1 / 10),
      (''operating_system_update'', 2 / 10)]"

definition severity_fallback :: "event \<Rightarrow> py_float" where
  "severity_fallback ev =
     (let et = (case event_type ev of None \<Rightarrow> ''unknown'' | Some t \<Rightarrow> t)
      in case map_of severity_map et of None \<Rightarrow> Finite (3 / 10) | Some p \<Rightarrow> Finite p)"

text \<open>
  The \<open>try\<close> block of \<open>predict_failure_probability\<close> and its handler for
  \<open>(json.JSONDecodeError, ValueError, KeyError)\<close>. A decoded value that is not a dictionary
  has no \<open>get\<close> method: the call raises \<open>AttributeError\<close>, which the handler does not
  catch.
\<close>

definition predict_failure_probability ::
  "(string \<Rightarrow> json option) \<Rightarrow> (string \<Rightarrow> py_float option) \<Rightarrow> string \<Rightarrow> event \<Rightarrow> string
     \<Rightarrow> py_error + py_float" where
  "predict_failure_probability json_loads float_of_str resource_type ev response =
     (case json_loads (strip_code_fence response) of
        None \<Rightarrow> Inr (severity_fallback ev)
      | Some (JObject kvs) \<Rightarrow>
          (case (case map_of kvs ''probability'' of
                   None \<Rightarrow> Inr (Finite (1 / 2))
                 | Some v \<Rightarrow> float_of_json float_of_str v) of
             Inr probability \<Rightarrow> Inr (py_max (Finite 0) (py_min (Finite 1) probability))
           | Inl ValueError \<Rightarrow> Inr (severity_fallback ev)
           | Inl KeyError \<Rightarrow> Inr (severity_fallback ev)
           | Inl e \<Rightarrow> Inl e)
      | Some _ \<Rightarrow> Inl AttributeError)"

definition in_unit_interval :: "py_float \<Rightarrow> bool" where
  "in_unit_interval v = (case v of Finite r \<Rightarrow> 0 \<le> r \<and> r \<le> 1 | _ \<Rightarrow> False)"

lemma clamp_unit: "in_unit_interval (py_max (Finite 0) (py_min (Finite 1) p))"
  by (cases p) (simp_all add: py_max_def py_min_def in_unit_interval_def)

lemma severity_map_bounds: "map_of severity_map et = Some p \<Longrightarrow> 0 \<le> p \<and> p \<le> 1"
proof -
  assume "map_of severity_map et = Some p"
  then have "(et, p) \<in> set severity_map" by (rule map_of_SomeD)
  then show ?thesis by (auto simp: severity_map_def)
qed

lemma severity_fallback_unit: "in_unit_interval (severity_fallback ev)"
proof -
  define et where "et = (case event_type ev of None \<Rightarrow> ''unknown'' | Some t \<Rightarrow> t)"
  show ?thesis
  proof (cases "map_of severity_map et")
    case None
    then have "severity_fallback ev = Finite (3 / 10)"
      by (simp add: severity_fallback_def et_def)
    then show ?thesis by (simp add: in_unit_interval_def)
  next
    case (Some p)
    then have "severity_fallback ev = Finite p"
      by (simp add: severity_fallback_def et_def)
    with severity_map_bounds [OF Some] show ?thesis by (simp add: in_unit_interval_def)
  qed
qed

lemma predict_decode_error:
  "json_loads (strip_code_fence response) = None \<Longrightarrow>
   predict_failure_probability json_loads float_of_str rt ev response = Inr (severity_fallback ev)"
  by (simp add: predict_failure_probability_def)

lemma severity_fallback_examples:
  "severity_fallback (ev\<lparr>event_type := Some ''hardware_failure''\<rparr>) = Finite (9 / 10)"
  "severity_fallback (ev\<lparr>event_type := Some ''software_maintenance_stop''\<rparr>) = Finite (1 / 10)"
  "severity_fallback (ev\<lparr>event_type := Some ''disk_full''\<rparr>) = Finite (3 / 10)"
  "severity_fallback (ev\<lparr>event_type := None\<rparr>) = Finite (3 / 10)"
  by (simp_all add: severity_fallback_def severity_map_def)

lemma predict_number:
  assumes "json_loads (strip_code_fence response) = Some (JObject kvs)"
    and "map_of kvs ''probability'' = Some (JFloat p)"
  shows "predict_failure_probability json_loads float_of_str rt ev response =
         Inr (py_max (Finite 0) (py_min (Finite 1) p))"
  using assms by (simp add: predict_failure_probability_def)

lemma predict_returns_unit:
  assumes "predict_failure_probability json_loads float_of_str rt ev response = Inr v"
  shows "in_unit_interval v"
proof (cases "json_loads (strip_code_fence response)")
  case None
  with assms show ?thesis
    using severity_fallback_unit [of ev] by (simp add: predict_failure_probability_def)
next
  case (Some j)
  show ?thesis
  proof (cases j)
    case (JObject kvs)
    define c where "c = (case map_of kvs ''probability'' of
                   None \<Rightarrow> Inr (Finite (1 / 2))
                 | Some v \<Rightarrow> float_of_json float_of_str v)"
    have p: "predict_failure_probability json_loads float_of_str rt ev response =
        (case c of
             Inr probability \<Rightarrow> Inr (py_max (Finite 0) (py_min (Finite 1) probability))
           | Inl ValueError \<Rightarrow> Inr (severity_fallback ev)
           | Inl KeyError \<Rightarrow> Inr (severity_fallback ev)
           | Inl e \<Rightarrow> Inl e)"
      using Some JObject by (simp add: predict_failure_probability_def c_def)
    show ?thesis
    proof (cases c)
      case (Inr probability)
      with p assms show ?thesis using clamp_unit [of probability] by simp
    next
      case (Inl e)
      with p assms show ?thesis using severity_fallback_unit [of ev] by (cases e) simp_all
    qed
  qed (use assms Some in \<open>simp_all add: predict_failure_probability_def\<close>)
qed


text \<open>The values of \<open>json.loads\<close> on the two texts used as examples.\<close>

definition example_json_loads :: "string \<Rightarrow> json option" where
  "example_json_loads s =
     (if s = ''0.7'' then Some (JFloat (Finite (7 / 10)))
      else if s = ''{\"probability\": 1.7}''
      then Some (JObject [(''probability'', JFloat (Finite (17 / 10)))])
      else None)"

lemma py_isspace_simps:
  "py_isspace CHR ''`'' = False" "py_isspace CHR ''0'' = False" "py_isspace CHR ''7'' = False"
  "py_isspace CHR ''{'' = False" "py_isspace CHR ''}'' = False" "py_isspace CHR 0x0A = True"
  by (simp_all add: py_isspace_def)

lemma strip_code_fence_example1: "strip_code_fence ''0.7'' = ''0.7''"
  by (simp add: strip_code_fence_def strip_def py_isspace_simps str_endswith_def)

lemma strip_code_fence_example2:
  "strip_code_fence ''```json\<newline>{\"probability\": 1.7}\<newline>```'' = ''{\"probability\": 1.7}''"
  by (simp add: strip_code_fence_def strip_def py_isspace_simps str_endswith_def)


text \<open>
  Claim C10. Every value that \<open>predict_failure_probability\<close> returns lies in \<open>[0, 1]\<close>: a
  decoded numeric probability outside the interval is clamped to the nearer bound, and
  the severity table used after a decoding failure holds values of \<open>[0, 1]\<close> only.
\<close>

theorem predict_failure_probability_in_unit_interval:
  "(\<forall>v. predict_failure_probability json_loads float_of_str rt ev response = Inr v \<longrightarrow>
        in_unit_interval v) \<and>
   (\<forall>kvs p. json_loads (strip_code_fence response) = Some (JObject kvs) \<and>
        (map_of kvs ''probability'' = Some (JFloat (Finite p)) \<or>
         (\<exists>n. map_of kvs ''probability'' = Some (JInt n) \<and> \<bar>n\<bar> < FLOAT_INT_LIMIT \<and>
              p = of_int n)) \<longrightarrow>
        predict_failure_probability json_loads float_of_str rt ev response =
          Inr (Finite (if p < 0 then 0 else if 1 < p then 1 else p))) \<and>
   (json_loads (strip_code_fence response) = None \<longrightarrow>
        predict_failure_probability json_loads float_of_str rt ev response =
          Inr (severity_fallback ev) \<and> in_unit_interval (severity_fallback ev))"
proof (intro conjI allI impI)
  fix v
  assume "predict_failure_probability json_loads float_of_str rt ev response = Inr v"
  then show "in_unit_interval v" by (rule predict_returns_unit)
next
  fix kvs p
  assume a: "json_loads (strip_code_fence response) = Some (JObject kvs) \<and>
        (map_of kvs ''probability'' = Some (JFloat (Finite p)) \<or>
         (\<exists>n. map_of kvs ''probability'' = Some (JInt n) \<and> \<bar>n\<bar> < FLOAT_INT_LIMIT \<and>
              p = of_int n))"
  then obtain v where v: "map_of kvs ''probability'' = Some v"
    "float_of_json float_of_str v = Inr (Finite p)"
    by auto
  have "py_max (Finite 0) (py_min (Finite 1) (Finite p)) =
        Finite (if p < 0 then 0 else if 1 < p then 1 else p)"
    by (simp add: py_max_def py_min_def)
  with a v show "predict_failure_probability json_loads float_of_str rt ev response =
          Inr (Finite (if p < 0 then 0 else if 1 < p then 1 else p))"
    by (simp add: predict_failure_probability_def)
next
  assume "json_loads (strip_code_fence response) = None"
  then show "predict_failure_probability json_loads float_of_str rt ev response =
          Inr (severity_fallback ev)"
    by (rule predict_decode_error)
next
  show "in_unit_interval (severity_fallback ev)" by (rule severity_fallback_unit)
qed

theorem predict_failure_probability_in_unit_interval_witness:
  "predict_failure_probability example_json_loads (\<lambda>s. None) ''server'' example_stop_event
     ''```json\<newline>{\"probability\": 1.7}\<newline>```'' = Inr (Finite 1)"
proof -
  have "example_json_loads (strip_code_fence ''```json\<newline>{\"probability\": 1.7}\<newline>```'') =
          Some (JObject [(''probability'', JFloat (Finite (17 / 10)))]) \<and>
        map_of [(''probability'', JFloat (Finite (17 / 10)))] ''probability'' =
          Some (JFloat (Finite (17 / 10)))"
    by (simp add: strip_code_fence_example2 example_json_loads_def)
  then have "predict_failure_probability example_json_loads (\<lambda>s. None) ''server''
      example_stop_event ''```json\<newline>{\"probability\": 1.7}\<newline>```'' =
      Inr (Finite (if (17 / 10 :: rat) < 0 then 0 else if 1 < (17 / 10 :: rat) then 1 else 17 / 10))"
    using predict_failure_probability_in_unit_interval [of example_json_loads "\<lambda>s. None"
        "''server''" example_stop_event "''```json\<newline>{\"probability\": 1.7}\<newline>```''"]
    by blast
  then show ?thesis by simp
qed

text \<open>
  Claim C9. A response that is not the expected JSON object should give the value of the
  severity table. It does when \<open>json.loads\<close> rejects the text (\<open>predict_decode_error\<close>).
  The response \<open>0.7\<close> is valid JSON but not an object: the call raises \<open>AttributeError\<close>
  past the handler instead of returning the table value.
\<close>

theorem predict_failure_probability_raises_on_bare_number:
  "predict_failure_probability example_json_loads (\<lambda>s. None) ''server'' example_stop_event ''0.7''
     = Inl AttributeError"
  by (simp add: predict_failure_probability_def strip_code_fence_example1 example_json_loads_def)


subsection \<open>Fallback recommendations\<close>

text \<open>
  The \<open>resource_summary\<close> dictionary that \<open>generate_co2_reduction_advice\<close> builds and hands
  to \<open>_fallback_co2_advice\<close>. \<open>max(co2_by_type.items(), key=lambda x: x[1])\<close> keeps the
  first of several maximal items.
\<close>

record co2_entry =
  ce_id :: string
  ce_type :: string
  ce_co2_kg :: rat
  ce_energy_kwh :: rat

record failure_entry =
  fe_id :: string
  fe_type :: string
  fe_failure_probability :: rat
  fe_co2_kg :: rat

record resource_summary =
  total_co2_kg :: rat
  total_energy_kwh :: rat
  co2_by_resource_type :: "(string \<times> rat) list"
  production_inventory :: "(string \<times> nat) list"
  resources_with_high_co2 :: "co2_entry list"
  resources_with_failures :: "failure_entry list"

fun max_by_value :: "(string \<times> rat) \<Rightarrow> (string \<times> rat) list \<Rightarrow> string \<times> rat" where
  "max_by_value best [] = best"
| "max_by_value best (x # xs) = max_by_value (if snd best < snd x then x else best) xs"

definition ADVICE_SERVER :: string where
  "ADVICE_SERVER = ''Consider server virtualization and consolidation to reduce the number of physical servers, potentially reducing CO2 emissions by 20-30%.''"

definition ADVICE_AUTOMATE :: string where
  "ADVICE_AUTOMATE = ''Optimize automate scheduling to reduce unnecessary runtime during non-production hours, reducing energy consumption.''"

definition ADVICE_WORKSTATION :: string where
  "ADVICE_WORKSTATION = ''Implement workstation power management policies to automatically shut down or hibernate workstations during non-business hours.''"

definition ADVICE_POWER_MANAGEMENT :: string where
  "ADVICE_POWER_MANAGEMENT = ''Implement power management policies across all IT resources to reduce energy consumption during idle periods.''"

definition ADVICE_FAILURES :: string where
  "ADVICE_FAILURES = ''Address high failure probability resources proactively to prevent unexpected downtime and optimize maintenance schedules, reducing overall energy waste.''"

definition ADVICE_MAINTAIN :: string where
  "ADVICE_MAINTAIN = ''Regularly monitor and maintain IT resources to ensure optimal energy efficiency and prevent energy waste from degraded performance.''"

definition ADVICE_RENEWABLE :: string where
  "ADVICE_RENEWABLE = ''Consider migrating to renewable energy sources or implementing energy-efficient hardware upgrades to significantly reduce carbon footprint.''"

definition ADVICE_MONITORING :: string where
  "ADVICE_MONITORING = ''Implement real-time energy monitoring to identify and address energy consumption anomalies and optimize resource utilization.''"

definition fallback_co2_advice :: "resource_summary \<Rightarrow> string list" where
  "fallback_co2_advice rs =
     (let advices0 =
            (case co2_by_resource_type rs of
               [] \<Rightarrow> [ADVICE_POWER_MANAGEMENT]
             | x # xs \<Rightarrow>
                 (let max_type = max_by_value x xs
                  in if fst max_type = ''server'' then [ADVICE_SERVER]
                     else if fst max_type = ''automate'' then [ADVICE_AUTOMATE]
                     else if fst max_type = ''workstation'' then [ADVICE_WORKSTATION]
                     else []));
          advices1 =
            (if resources_with_failures rs \<noteq> [] then advices0 @ [ADVICE_FAILURES]
             else advices0 @ [ADVICE_MAINTAIN]);
          advices2 =
            (if total_co2_kg rs > 200 then advices1 @ [ADVICE_RENEWABLE]
             else advices1 @ [ADVICE_MONITORING])
      in take 3 advices2)"

lemmas ADVICE_defs = ADVICE_SERVER_def ADVICE_AUTOMATE_def ADVICE_WORKSTATION_def
  ADVICE_POWER_MANAGEMENT_def ADVICE_FAILURES_def ADVICE_MAINTAIN_def ADVICE_RENEWABLE_def
  ADVICE_MONITORING_def

lemma fallback_co2_advice_three:
  assumes "co2_by_resource_type rs = [] \<or>
     (\<exists>x xs. co2_by_resource_type rs = x # xs \<and>
        fst (max_by_value x xs) \<in> {''server'', ''automate'', ''workstation''})"
  shows "length (fallback_co2_advice rs) = 3 \<and> (\<forall>a\<in>set (fallback_co2_advice rs). a \<noteq> [])"
  using assms
  by (auto simp: fallback_co2_advice_def Let_def ADVICE_defs split: list.splits)

lemma fallback_co2_advice_two:
  assumes "co2_by_resource_type rs = x # xs"
    and "fst (max_by_value x xs) \<notin> {''server'', ''automate'', ''workstation''}"
  shows "length (fallback_co2_advice rs) = 2"
  using assms
  by (auto simp: fallback_co2_advice_def Let_def)

definition gateway_led_summary :: resource_summary where
  "gateway_led_summary =
     \<lparr>total_co2_kg = 5, total_energy_kwh = 10,
      co2_by_resource_type =
        [(''server'', 1), (''workstation'', 1), (''automate'', 1), (''internet_gateway'', 2)],
      production_inventory = PRODUCTION_INVENTORY,
      resources_with_high_co2 = [], resources_with_failures = []\<rparr>"

text \<open>
  Claim C3. The fallback should return exactly three non-empty recommendations for every
  summary. It does when the CO2 breakdown is empty or led by a server, an automate or a
  workstation (\<open>fallback_co2_advice_three\<close>). When \<open>internet_gateway\<close> leads, the
  \<open>if / elif\<close> chain has no branch for it and only two recommendations are returned.
\<close>

theorem fallback_co2_advice_gateway_two:
  "fallback_co2_advice gateway_led_summary = [ADVICE_MAINTAIN, ADVICE_MONITORING] \<and>
   length (fallback_co2_advice gateway_led_summary) = 2"
  by (simp add: fallback_co2_advice_def gateway_led_summary_def)



section \<open>Weekly energy (energy_calculator.py, calculate_weekly_energy)\<close>

text \<open>
  \<open>events_data\<close> is a dictionary from resource identifier to a dictionary with the keys
  \<open>type\<close> and \<open>events\<close>, read in insertion order; the clock reading \<open>datetime.now()\<close> is the
  parameter \<open>now\<close>. \<open>round(x, 2)\<close> rounds to the nearest multiple of \<open>0.01\<close>, a tie going to
  the even one.
\<close>

record resource_energy =
  re_type :: string
  base_energy_wh :: rat
  adjusted_energy_wh :: rat
  re_events_count :: nat

record energy_report =
  total_energy_wh :: rat
  report_total_energy_kwh :: rat
  energy_by_type :: "(string \<times> rat) list"
  energy_by_resource :: "(string \<times> resource_energy) list"
  report_production_inventory :: "(string \<times> nat) list"
  period_start :: datetime
  period_end :: datetime

text \<open>
  \<open>round(x, ndigits)\<close>: the nearest multiple of \<open>10^-ndigits\<close>, ties to even. The
  code rounds the binary value of the float \<open>x\<close>; here the rational is rounded.
\<close>

definition py_round :: "rat \<Rightarrow> nat \<Rightarrow> rat" where
  "py_round x ndigits =
     (let scaled = x * 10 ^ ndigits;
          lower = \<lfloor>scaled\<rfloor>;
          frac = scaled - of_int lower
      in of_int (if frac < 1 / 2 then lower
                 else if 1 / 2 < frac then lower + 1
                 else if even lower then lower else lower + 1) / 10 ^ ndigits)"

text \<open>State of the inner loop: total_adjusted_energy, resources_with_events, resources.\<close>

fun resources_loop ::
  "string \<Rightarrow> rat \<Rightarrow> datetime \<Rightarrow> datetime \<Rightarrow> database \<Rightarrow>
   rat \<times> nat \<times> (string \<times> resource_energy) list \<Rightarrow>
   py_error + rat \<times> nat \<times> (string \<times> resource_energy) list" where
  "resources_loop rt base start_date end_date [] st = Inr st"
| "resources_loop rt base start_date end_date ((resource_id, resource_data) # rest)
     (total_adjusted_energy, resources_with_events, resources) =
     (if rtype resource_data = Some rt then
        (case adjust_energy_for_events base rt (events resource_data) start_date end_date of
           Inl e \<Rightarrow> Inl e
         | Inr adjusted_energy \<Rightarrow>
             resources_loop rt base start_date end_date rest
               (total_adjusted_energy + (adjusted_energy - base),
                resources_with_events + 1,
                AList.update resource_id
                  \<lparr>re_type = rt, base_energy_wh = base, adjusted_energy_wh = adjusted_energy,
                   re_events_count = length (events resource_data)\<rparr> resources))
      else resources_loop rt base start_date end_date rest
             (total_adjusted_energy, resources_with_events, resources))"

text \<open>
  The body of \<open>for resource_type, count in self.PRODUCTION_INVENTORY.items()\<close>: the value
  stored in \<open>energy_by_type[resource_type]\<close> and the updated \<open>resources\<close>.
\<close>

definition type_energy ::
  "database \<Rightarrow> datetime \<Rightarrow> datetime \<Rightarrow> string \<Rightarrow> nat \<Rightarrow> (string \<times> resource_energy) list \<Rightarrow>
   py_error + rat \<times> (string \<times> resource_energy) list" where
  "type_energy events_data start_date end_date rt count resources =
     (case calculate_base_energy rt start_date end_date of
        Inl e \<Rightarrow> Inl e
      | Inr base_energy_per_resource \<Rightarrow>
          (case resources_loop rt base_energy_per_resource start_date end_date events_data
                  (base_energy_per_resource * of_nat count, 0, resources) of
             Inl e \<Rightarrow> Inl e
           | Inr (total_adjusted_energy, resources_with_events, resources') \<Rightarrow>
               (let resources_without_events = int count - int resources_with_events
                in if resources_without_events > 0
                   then Inr (total_adjusted_energy +
                             base_energy_per_resource * of_int resources_without_events,
                             resources')
                   else Inr (total_adjusted_energy, resources'))))"

text \<open>State of the outer loop: total_energy_wh, energy_by_type, resources.\<close>

fun inventory_loop ::
  "database \<Rightarrow> datetime \<Rightarrow> datetime \<Rightarrow> (string \<times> nat) list \<Rightarrow>
   rat \<times> (string \<times> rat) list \<times> (string \<times> resource_energy) list \<Rightarrow>
   py_error + rat \<times> (string \<times> rat) list \<times> (string \<times> resource_energy) list" where
  "inventory_loop events_data start_date end_date [] st = Inr st"
| "inventory_loop events_data start_date end_date ((rt, count) # rest)
     (total_wh, by_type, resources) =
     (case type_energy events_data start_date end_date rt count resources of
        Inl e \<Rightarrow> Inl e
      | Inr (total_adjusted_energy, resources') \<Rightarrow>
          inventory_loop events_data start_date end_date rest
            (total_wh + total_adjusted_energy,
             AList.update rt total_adjusted_energy by_type,
             resources'))"

definition initial_energy_by_type :: "(string \<times> rat) list" where
  "initial_energy_by_type =
     [(''server'', 0), (''workstation'', 0), (''automate'', 0), (''internet_gateway'', 0)]"

definition calculate_weekly_energy :: "database \<Rightarrow> datetime \<Rightarrow> py_error + energy_report" where
  "calculate_weekly_energy events_data now =
     (let end_date = now; start_date = end_date - timedelta_days 7
      in case inventory_loop events_data start_date end_date PRODUCTION_INVENTORY
                (0, initial_energy_by_type, []) of
           Inl e \<Rightarrow> Inl e
         | Inr (total_wh, by_type, resources) \<Rightarrow>
             Inr \<lparr>total_energy_wh = py_round total_wh 2,
                  report_total_energy_kwh = py_round (total_wh / 1000) 2,
                  energy_by_type = map (\<lambda>(k, v). (k, py_round v 2)) by_type,
                  energy_by_resource = resources,
                  report_production_inventory = PRODUCTION_INVENTORY,
                  period_start = start_date, period_end = end_date\<rparr>)"

lemma py_round_error: "\<bar>py_round x 2 - x\<bar> \<le> 1 / 200"
proof -
  define s where "s = x * 100"
  define f where "f = \<lfloor>s\<rfloor>"
  define k where "k = (if s - of_int f < 1 / 2 then f
                 else if 1 / 2 < s - of_int f then f + 1
                 else if even f then f else f + 1)"
  have b: "of_int f \<le> s" "s < of_int f + 1"
    unfolding f_def by linarith+
  have "k = f \<and> s - of_int f \<le> 1 / 2 \<or> k = f + 1 \<and> 1 / 2 \<le> s - of_int f"
    unfolding k_def by auto
  then have "\<bar>of_int k - s\<bar> \<le> 1 / 2"
    using b by (auto simp: abs_if)
  moreover have p: "(10::rat) ^ 2 = 100" by simp
  have "py_round x 2 = of_int k / 100"
    unfolding py_round_def Let_def k_def f_def s_def p by (rule refl)
  then have "py_round x 2 - x = (of_int k - s) / 100"
    by (simp add: s_def diff_divide_distrib)
  ultimately show ?thesis by (simp add: abs_if split: if_splits)
qed


lemma inventory_loop_totals:
  assumes "inventory_loop events_data start_date end_date PRODUCTION_INVENTORY
             (0, initial_energy_by_type, []) = Inr (total_wh, by_type, resources)"
  shows "\<exists>a b c d. by_type = [(''server'', a), (''workstation'', b), (''automate'', c),
                                (''internet_gateway'', d)] \<and>
                     total_wh = a + b + c + d"
proof -
  obtain a r1 where 1: "type_energy events_data start_date end_date ''server'' 10 [] = Inr (a, r1)"
    using assms
    by (cases "type_energy events_data start_date end_date ''server'' 10 []")
       (auto simp: PRODUCTION_INVENTORY_def)
  obtain b r2 where 2: "type_energy events_data start_date end_date ''workstation'' 20 r1 = Inr (b, r2)"
    using assms 1
    by (cases "type_energy events_data start_date end_date ''workstation'' 20 r1")
       (auto simp: PRODUCTION_INVENTORY_def)
  obtain c r3 where 3: "type_energy events_data start_date end_date ''automate'' 5 r2 = Inr (c, r3)"
    using assms 1 2
    by (cases "type_energy events_data start_date end_date ''automate'' 5 r2")
       (auto simp: PRODUCTION_INVENTORY_def)
  obtain d r4 where 4:
    "type_energy events_data start_date end_date ''internet_gateway'' (Suc 0) r3 = Inr (d, r4)"
    using assms 1 2 3
    by (cases "type_energy events_data start_date end_date ''internet_gateway'' (Suc 0) r3")
       (auto simp: PRODUCTION_INVENTORY_def)
  have "inventory_loop events_data start_date end_date PRODUCTION_INVENTORY
             (0, initial_energy_by_type, []) =
        Inr (a + b + c + d,
             [(''server'', a), (''workstation'', b), (''automate'', c), (''internet_gateway'', d)],
             r4)"
    by (simp add: PRODUCTION_INVENTORY_def initial_energy_by_type_def 1 2 3 4)
  with assms have "total_wh = a + b + c + d"
    "by_type = [(''server'', a), (''workstation'', b), (''automate'', c),
                (''internet_gateway'', d)]"
    by simp_all
  then show ?thesis by blast
qed

lemma rounded_sum_error:
  "\<bar>(py_round a 2 + py_round b 2 + py_round c 2 + py_round d 2) - py_round (a + b + c + d) 2\<bar>
     \<le> 1 / 40"
  using py_round_error [of a] py_round_error [of b] py_round_error [of c] py_round_error [of d]
    py_round_error [of "a + b + c + d"]
  by linarith


lemma weekly_base_energy:
  "calculate_base_energy ''server'' (now - timedelta_days 7) now = Inr 14280"
  "calculate_base_energy ''workstation'' (now - timedelta_days 7) now = Inr 5040"
  "calculate_base_energy ''automate'' (now - timedelta_days 7) now = Inr 25200"
  "calculate_base_energy ''internet_gateway'' (now - timedelta_days 7) now = Inr 8400"
proof -
  have w: "now = (now - timedelta_days 7) + timedelta_days 7" by simp
  show "calculate_base_energy ''server'' (now - timedelta_days 7) now = Inr 14280"
    using base_energy_week_scheduled [of "''server''" 100 70 "now - timedelta_days 7"]
    by (simp add: power_lookup_simps)
  show "calculate_base_energy ''workstation'' (now - timedelta_days 7) now = Inr 5040"
    using base_energy_week_scheduled [of "''workstation''" 60 0 "now - timedelta_days 7"]
    by (simp add: power_lookup_simps)
  show "calculate_base_energy ''automate'' (now - timedelta_days 7) now = Inr 25200"
    using base_energy_week_scheduled [of "''automate''" 300 0 "now - timedelta_days 7"]
    by (simp add: power_lookup_simps)
  show "calculate_base_energy ''internet_gateway'' (now - timedelta_days 7) now = Inr 8400"
    by (simp add: calculate_base_energy_def power_lookup_simps hours_between_def
        timedelta_days_def US_PER_HOUR_def)
qed

lemma resources_loop_returns:
  assumes "rt \<in> fst ` set PRODUCTION_INVENTORY"
  shows "\<forall>(rid, rd)\<in>set events_data. \<forall>ev\<in>set (events rd). duration_event ev \<noteq> DurationInfinite \<Longrightarrow>
         \<exists>st'. resources_loop rt base s e events_data st = Inr st'"
proof (induction events_data arbitrary: st)
  case Nil
  obtain t n res where "st = (t, n, res)" by (metis prod_cases3)
  then show ?case by simp
next
  case (Cons x xs)
  obtain rid rd where x: "x = (rid, rd)" by (cases x)
  obtain t n res where st: "st = (t, n, res)" by (metis prod_cases3)
  have inf: "\<forall>ev\<in>set (events rd). duration_event ev \<noteq> DurationInfinite"
    using Cons.prems x by auto
  have rest: "\<forall>(rid, rd)\<in>set xs. \<forall>ev\<in>set (events rd). duration_event ev \<noteq> DurationInfinite"
    using Cons.prems by auto
  show ?case
  proof (cases "rtype rd = Some rt")
    case True
    obtain v where "adjust_energy_for_events base rt (events rd) s e = Inr v"
      using adjust_events_loop_returns [OF assms inf, of s e base]
      by (auto simp: adjust_energy_for_events_def)
    with True show ?thesis
      using Cons.IH [OF rest] by (simp add: x st)
  next
    case False
    then show ?thesis
      using Cons.IH [OF rest] by (simp add: x st)
  qed
qed

lemma type_energy_returns:
  assumes "rt \<in> fst ` set PRODUCTION_INVENTORY"
    and "\<forall>(rid, rd)\<in>set events_data. \<forall>ev\<in>set (events rd). duration_event ev \<noteq> DurationInfinite"
  shows "\<exists>v. type_energy events_data (now - timedelta_days 7) now rt count resources = Inr v"
proof -
  obtain base where b: "calculate_base_energy rt (now - timedelta_days 7) now = Inr base"
    using assms(1) weekly_base_energy [of now] by (auto simp: PRODUCTION_INVENTORY_def)
  obtain t n res where
    "resources_loop rt base (now - timedelta_days 7) now events_data
       (base * of_nat count, 0, resources) = Inr (t, n, res)"
    using resources_loop_returns [OF assms, of base "now - timedelta_days 7" now
        "(base * of_nat count, 0, resources)"]
    by (metis prod_cases3)
  then show ?thesis
    by (simp add: type_energy_def b Let_def)
qed

lemma calculate_weekly_energy_returns:
  assumes "\<forall>(rid, rd)\<in>set events_data. \<forall>ev\<in>set (events rd). duration_event ev \<noteq> DurationInfinite"
  shows "\<exists>r. calculate_weekly_energy events_data now = Inr r"
proof -
  note te = type_energy_returns [OF _ assms, of _ now]
  obtain a r1 where 1: "type_energy events_data (now - timedelta_days 7) now ''server'' 10 [] = Inr (a, r1)"
    using te [of "''server''" 10 "[]"] by (auto simp: PRODUCTION_INVENTORY_def)
  obtain b r2 where 2: "type_energy events_data (now - timedelta_days 7) now ''workstation'' 20 r1 = Inr (b, r2)"
    using te [of "''workstation''" 20 r1] by (auto simp: PRODUCTION_INVENTORY_def)
  obtain c r3 where 3: "type_energy events_data (now - timedelta_days 7) now ''automate'' 5 r2 = Inr (c, r3)"
    using te [of "''automate''" 5 r2] by (auto simp: PRODUCTION_INVENTORY_def)
  obtain d r4 where 4:
    "type_energy events_data (now - timedelta_days 7) now ''internet_gateway'' (Suc 0) r3 = Inr (d, r4)"
    using te [of "''internet_gateway''" "Suc 0" r3] by (auto simp: PRODUCTION_INVENTORY_def)
  show ?thesis
    by (simp add: calculate_weekly_energy_def Let_def PRODUCTION_INVENTORY_def 1 2 3 4)
qed

text \<open>
  Claim C7, as the code has it. The report holds the four per-type values and the total,
  each rounded to two decimals on its own, so the sum of the reported per-type values and
  the reported total differ by at most \<open>max(0.025, 1e-6 * |total_energy_wh|)\<close> Wh: the
  absolute part comes from the five roundings, the relative part leaves room for the error
  of the binary additions on large accumulators. The calculation returns a report whenever
  no duration is an infinity.
\<close>

theorem weekly_energy_totals:
  "(\<forall>r. calculate_weekly_energy events_data now = Inr r \<longrightarrow>
      \<bar>sum_list (map snd (energy_by_type r)) - total_energy_wh r\<bar>
        \<le> max (1 / 40) (1 / 1000000 * \<bar>total_energy_wh r\<bar>)) \<and>
   ((\<forall>(rid, rd)\<in>set events_data. \<forall>ev\<in>set (events rd). duration_event ev \<noteq> DurationInfinite) \<longrightarrow>
      (\<exists>r. calculate_weekly_energy events_data now = Inr r))"
proof (intro conjI allI impI)
  fix r
  assume r: "calculate_weekly_energy events_data now = Inr r"
  then obtain total_wh by_type resources where
    il: "inventory_loop events_data (now - timedelta_days 7) now PRODUCTION_INVENTORY
          (0, initial_energy_by_type, []) = Inr (total_wh, by_type, resources)"
    and rr: "total_energy_wh r = py_round total_wh 2"
      "energy_by_type r = map (\<lambda>(k, v). (k, py_round v 2)) by_type"
    by (auto simp: calculate_weekly_energy_def Let_def split: sum.splits)
  from inventory_loop_totals [OF il] obtain a b c d where
    abcd: "by_type = [(''server'', a), (''workstation'', b), (''automate'', c),
                      (''internet_gateway'', d)]" "total_wh = a + b + c + d"
    by blast
  have e: "energy_by_type r =
            [(''server'', py_round a 2), (''workstation'', py_round b 2),
             (''automate'', py_round c 2), (''internet_gateway'', py_round d 2)]"
    by (simp add: rr abcd)
  have t: "total_energy_wh r = py_round (a + b + c + d) 2"
    by (simp add: rr abcd)
  have "\<bar>sum_list (map snd (energy_by_type r)) - total_energy_wh r\<bar> \<le> 1 / 40"
    using rounded_sum_error [of a b c d] by (simp add: e t add.assoc)
  then show "\<bar>sum_list (map snd (energy_by_type r)) - total_energy_wh r\<bar>
               \<le> max (1 / 40) (1 / 1000000 * \<bar>total_energy_wh r\<bar>)"
    by (rule max.coboundedI1)
next
  assume "\<forall>(rid, rd)\<in>set events_data. \<forall>ev\<in>set (events rd). duration_event ev \<noteq> DurationInfinite"
  then show "\<exists>r. calculate_weekly_energy events_data now = Inr r"
    by (rule calculate_weekly_energy_returns)
qed


text \<open>
  A snapshot with ten servers, thirteen automates and one gateway, each with one hardware
  failure that starts at 10:00 on the first day of the window. The failures last the whole
  week, but for \<open>server_10\<close> (514077 s) and the gateway (604799 s).
\<close>

definition failure_event :: "rat \<Rightarrow> event" where
  "failure_event seconds =
     \<lparr>event_id = Some ''f1'', event_type = Some ''hardware_failure'',
      timestamp_start_event = Timestamp (10 * US_PER_HOUR), timestamp_end_event = TimestampAbsent,
      duration_event = DurationNumber seconds, failure_probability = None, stored_at = None\<rparr>"

definition week_failure_event :: event where
  "week_failure_event = failure_event 604800"

definition server_partial_event :: event where
  "server_partial_event = failure_event 514077"

definition gateway_partial_event :: event where
  "gateway_partial_event = failure_event 604799"

definition stopped_resource :: "string \<Rightarrow> event \<Rightarrow> resource_record" where
  "stopped_resource rt ev = \<lparr>rtype = Some rt, events = [ev], created_at = [], updated_at = []\<rparr>"

definition tolerance_snapshot :: database where
  "tolerance_snapshot =
     [(''server_1'', stopped_resource ''server'' week_failure_event),
      (''server_2'', stopped_resource ''server'' week_failure_event),
      (''server_3'', stopped_resource ''server'' week_failure_event),
      (''server_4'', stopped_resource ''server'' week_failure_event),
      (''server_5'', stopped_resource ''server'' week_failure_event),
      (''server_6'', stopped_resource ''server'' week_failure_event),
      (''server_7'', stopped_resource ''server'' week_failure_event),
      (''server_8'', stopped_resource ''server'' week_failure_event),
      (''server_9'', stopped_resource ''server'' week_failure_event),
      (''server_10'', stopped_resource ''server'' server_partial_event),
      (''automate_1'', stopped_resource ''automate'' week_failure_event),
      (''automate_2'', stopped_resource ''automate'' week_failure_event),
      (''automate_3'', stopped_resource ''automate'' week_failure_event),
      (''automate_4'', stopped_resource ''automate'' week_failure_event),
      (''automate_5'', stopped_resource ''automate'' week_failure_event),
      (''automate_6'', stopped_resource ''automate'' week_failure_event),
      (''automate_7'', stopped_resource ''automate'' week_failure_event),
      (''automate_8'', stopped_resource ''automate'' week_failure_event),
      (''automate_9'', stopped_resource ''automate'' week_failure_event),
      (''automate_10'', stopped_resource ''automate'' week_failure_event),
      (''automate_11'', stopped_resource ''automate'' week_failure_event),
      (''automate_12'', stopped_resource ''automate'' week_failure_event),
      (''automate_13'', stopped_resource ''automate'' week_failure_event),
      (''internet_gateway_1'', stopped_resource ''internet_gateway'' gateway_partial_event)]"

lemma stopped_resource_simps:
  "rtype (stopped_resource rt ev) = Some rt" "events (stopped_resource rt ev) = [ev]"
  by (simp_all add: stopped_resource_def)

lemma failure_event_step:
  assumes "power_during_event rt (10 * US_PER_HOUR) = Inr w" "0 \<le> seconds"
  shows "adjust_energy_for_events base rt [failure_event seconds] 0 (timedelta_days 7) =
         Inr (max 0 (base - w * (of_int \<lfloor>seconds\<rfloor> / 3600)))"
proof -
  have d: "parse_duration (duration_event (failure_event seconds)) = Inr (Some \<lfloor>seconds\<rfloor>)"
    using assms(2) by (simp add: failure_event_def parse_duration_def int_of_float_def)
  have t: "parse_event_start (failure_event seconds) = Some (10 * US_PER_HOUR)"
    by (simp add: failure_event_def parse_event_start_def)
  have "adjust_for_event rt 0 (timedelta_days 7) (failure_event seconds) base =
        Inr (base - w * (of_int \<lfloor>seconds\<rfloor> / 3600))"
    using adjust_for_event_participating [OF d t example_stop_event_in_week(1,2) assms(1), of base]
    by (simp add: failure_event_def apply_event_type_def)
  then show ?thesis by (simp add: adjust_energy_for_events_def)
qed

lemma power_at_ten:
  "power_during_event ''server'' (10 * US_PER_HOUR) = Inr 100"
  "power_during_event ''automate'' (10 * US_PER_HOUR) = Inr 300"
  "power_during_event ''internet_gateway'' (10 * US_PER_HOUR) = Inr 50"
  by (simp_all add: power_during_event_def scheduled_power_def power_lookup_simps
      example_stop_event_in_week PRODUCTION_START_HOUR_def PRODUCTION_END_HOUR_def)

lemma snapshot_adjusted:
  "adjust_energy_for_events 14280 ''server'' [week_failure_event] 0 (timedelta_days 7) = Inr 0"
  "adjust_energy_for_events 14280 ''server'' [server_partial_event] 0 (timedelta_days 7) =
     Inr (1 / 12)"
  "adjust_energy_for_events 25200 ''automate'' [week_failure_event] 0 (timedelta_days 7) = Inr 0"
  "adjust_energy_for_events 8400 ''internet_gateway'' [gateway_partial_event] 0 (timedelta_days 7) =
     Inr (1 / 72)"
  by (simp_all add: week_failure_event_def server_partial_event_def gateway_partial_event_def
      failure_event_step power_at_ten)

lemma snapshot_base:
  "calculate_base_energy ''server'' 0 (timedelta_days 7) = Inr 14280"
  "calculate_base_energy ''workstation'' 0 (timedelta_days 7) = Inr 5040"
  "calculate_base_energy ''automate'' 0 (timedelta_days 7) = Inr 25200"
  "calculate_base_energy ''internet_gateway'' 0 (timedelta_days 7) = Inr 8400"
  using weekly_base_energy [of "timedelta_days 7"] by simp_all

lemma snapshot_by_type:
  "map_sum id fst (type_energy tolerance_snapshot 0 (timedelta_days 7) ''server'' 10 res) =
     Inr (1 / 12)"
  "map_sum id fst (type_energy tolerance_snapshot 0 (timedelta_days 7) ''workstation'' 20 res) =
     Inr 201600"
  "map_sum id fst (type_energy tolerance_snapshot 0 (timedelta_days 7) ''automate'' 5 res) =
     Inr (- 201600)"
  "map_sum id fst (type_energy tolerance_snapshot 0 (timedelta_days 7) ''internet_gateway'' 1 res) =
     Inr (1 / 72)"
  by (simp_all add: type_energy_def snapshot_base tolerance_snapshot_def stopped_resource_simps
      snapshot_adjusted Let_def)


lemma map_sum_fst_InrD: "map_sum id fst x = Inr v \<Longrightarrow> \<exists>r. x = Inr (v, r)"
  by (cases x) auto

lemma py_round_nearest:
  assumes "of_int k / 100 - 1 / 200 < x" "x < of_int k / 100 + 1 / 200"
  shows "py_round x 2 = of_int k / 100"
proof -
  define s where "s = x * 100"
  define f where "f = \<lfloor>s\<rfloor>"
  have s: "of_int k - 1 / 2 < s" "s < of_int k + 1 / 2"
    using assms by (simp_all add: s_def field_simps)
  have b: "of_int f \<le> s" "s < of_int f + 1"
    unfolding f_def by linarith+
  have "of_int f < (of_int (k + 1) :: rat)" "(of_int (k - 1) :: rat) < of_int (f + 1)"
    using s b by simp_all
  then have "f < k + 1" "k - 1 < f + 1"
    by (simp_all only: of_int_less_iff)
  then consider "f = k" | "f = k - 1" by linarith
  then have "(if s - of_int f < 1 / 2 then f
              else if 1 / 2 < s - of_int f then f + 1
              else if even f then f else f + 1) = k"
  proof cases
    case 1
    then show ?thesis using s by simp
  next
    case 2
    then show ?thesis using s by simp
  qed
  moreover have p: "(10::rat) ^ 2 = 100" by simp
  have "py_round x 2 = of_int (if s - of_int f < 1 / 2 then f
              else if 1 / 2 < s - of_int f then f + 1
              else if even f then f else f + 1) / 100"
    unfolding py_round_def Let_def f_def s_def p by (rule refl)
  ultimately show ?thesis by simp
qed

lemma py_round_snapshot:
  "py_round (1 / 12) 2 = 8 / 100" "py_round 201600 2 = 201600" "py_round (- 201600) 2 = - 201600"
  "py_round (1 / 72) 2 = 1 / 100" "py_round (7 / 72) 2 = 10 / 100"
  using py_round_nearest [of 8 "1 / 12"] py_round_nearest [of 20160000 201600]
    py_round_nearest [of "- 20160000" "- 201600"] py_round_nearest [of 1 "1 / 72"]
    py_round_nearest [of 10 "7 / 72"]
  by simp_all

lemma snapshot_report:
  "\<exists>res. calculate_weekly_energy tolerance_snapshot (timedelta_days 7) =
     Inr \<lparr>total_energy_wh = 10 / 100,
          report_total_energy_kwh = py_round (7 / 72 / 1000) 2,
          energy_by_type = [(''server'', 8 / 100), (''workstation'', 201600),
                            (''automate'', - 201600), (''internet_gateway'', 1 / 100)],
          energy_by_resource = res,
          report_production_inventory = PRODUCTION_INVENTORY,
          period_start = 0, period_end = timedelta_days 7\<rparr>"
proof -
  obtain r1 where 1: "type_energy tolerance_snapshot 0 (timedelta_days 7) ''server'' 10 [] =
      Inr (1 / 12, r1)"
    using map_sum_fst_InrD [OF snapshot_by_type(1)] by blast
  obtain r2 where 2: "type_energy tolerance_snapshot 0 (timedelta_days 7) ''workstation'' 20 r1 =
      Inr (201600, r2)"
    using map_sum_fst_InrD [OF snapshot_by_type(2)] by blast
  obtain r3 where 3: "type_energy tolerance_snapshot 0 (timedelta_days 7) ''automate'' 5 r2 =
      Inr (- 201600, r3)"
    using map_sum_fst_InrD [OF snapshot_by_type(3)] by blast
  obtain r4 where 4:
    "type_energy tolerance_snapshot 0 (timedelta_days 7) ''internet_gateway'' (Suc 0) r3 =
      Inr (1 / 72, r4)"
    using map_sum_fst_InrD [OF snapshot_by_type(4)] by auto
  have "inventory_loop tolerance_snapshot 0 (timedelta_days 7) PRODUCTION_INVENTORY
          (0, initial_energy_by_type, []) =
        Inr (7 / 72,
             [(''server'', 1 / 12), (''workstation'', 201600), (''automate'', - 201600),
              (''internet_gateway'', 1 / 72)], r4)"
    by (simp add: PRODUCTION_INVENTORY_def initial_energy_by_type_def 1 2 3 4)
  then show ?thesis
    by (simp add: calculate_weekly_energy_def Let_def py_round_snapshot)
qed

text \<open>
  On this snapshot the reported per-type values add up to \<open>0.09\<close> and the reported total
  is \<open>0.10\<close>: the difference is a tenth of the total.
\<close>

theorem weekly_energy_rounding_exceeds_relative_tolerance:
  "(case calculate_weekly_energy tolerance_snapshot (timedelta_days 7) of
      Inl e \<Rightarrow> False
    | Inr r \<Rightarrow>
        sum_list (map snd (energy_by_type r)) = 9 / 100 \<and> total_energy_wh r = 10 / 100 \<and>
        1 / 1000000 * \<bar>total_energy_wh r\<bar> <
          \<bar>sum_list (map snd (energy_by_type r)) - total_energy_wh r\<bar>)"
proof -
  from snapshot_report obtain r where
    "calculate_weekly_energy tolerance_snapshot (timedelta_days 7) = Inr r"
    "energy_by_type r = [(''server'', 8 / 100), (''workstation'', 201600),
                            (''automate'', - 201600), (''internet_gateway'', 1 / 100)]"
    "total_energy_wh r = 10 / 100"
    by force
  then show ?thesis by simp
qed

theorem weekly_energy_totals_witness:
  "\<exists>r. calculate_weekly_energy tolerance_snapshot (timedelta_days 7) = Inr r \<and>
       \<bar>sum_list (map snd (energy_by_type r)) - total_energy_wh r\<bar>
         \<le> max (1 / 40) (1 / 1000000 * \<bar>total_energy_wh r\<bar>)"
proof -
  have "\<forall>(rid, rd)\<in>set tolerance_snapshot. \<forall>ev\<in>set (events rd).
          duration_event ev \<noteq> DurationInfinite"
    by (simp add: tolerance_snapshot_def stopped_resource_simps week_failure_event_def
        server_partial_event_def gateway_partial_event_def failure_event_def)
  then show ?thesis
    using weekly_energy_totals [of tolerance_snapshot "timedelta_days 7"] by blast
qed



section \<open>Instance list of the textual report (report_generator.py)\<close>

text \<open>
  \<open>generate_textual_report\<close> builds \<open>resource_details\<close>: one entry for every resource of the
  store, then, for every type of the inventory with fewer stored resources than the fleet
  count, entries with fresh identifiers \<open>f"{resource_type}_{counter}"\<close>; the list is sorted
  by type and descending CO2 at the end. \<open>str(counter)\<close> is the decimal numeral.
\<close>

definition digit_char :: "nat \<Rightarrow> char" where
  "digit_char d = char_of (48 + d)"

fun string_of_nat :: "nat \<Rightarrow> string" where
  "string_of_nat n =
     (if 10 \<le> n then string_of_nat (n div 10) @ [digit_char (n mod 10)] else [digit_char n])"

declare string_of_nat.simps [simp del]

definition make_id :: "string \<Rightarrow> nat \<Rightarrow> string" where
  "make_id rt counter = rt @ ''_'' @ string_of_nat counter"

lemma string_of_nat_nonempty: "string_of_nat n \<noteq> []" "[] \<noteq> string_of_nat n"
  by (subst string_of_nat.simps, simp)+

lemma digit_char_inj:
  fixes a b :: nat
  assumes "a < 10" "b < 10" "digit_char a = digit_char b"
  shows "a = b"
proof -
  have "(of_char (char_of (48 + a) :: char) :: nat) = of_char (char_of (48 + b) :: char)"
    using assms(3) by (simp add: digit_char_def)
  then have "(48 + a) mod 256 = (48 + b) mod 256"
    by (simp only: of_char_of)
  with assms(1,2) show ?thesis by simp
qed

lemma string_of_nat_inj: "string_of_nat n = string_of_nat m \<Longrightarrow> n = m"
proof (induction n arbitrary: m rule: string_of_nat.induct)
  case (1 n)
  show ?case
  proof (cases "10 \<le> n")
    case n: False
    show ?thesis
    proof (cases "10 \<le> m")
      case False
      with n "1.prems" show ?thesis
        by (simp add: string_of_nat.simps [of n] string_of_nat.simps [of m] digit_char_inj)
    next
      case True
      with n "1.prems" show ?thesis
        by (simp add: string_of_nat.simps [of n] string_of_nat.simps [of m]
            string_of_nat_nonempty)
    qed
  next
    case n: True
    show ?thesis
    proof (cases "10 \<le> m")
      case False
      with n "1.prems" show ?thesis
        by (simp add: string_of_nat.simps [of n] string_of_nat.simps [of m]
            string_of_nat_nonempty)
    next
      case True
      with n "1.prems" have
        "string_of_nat (n div 10) = string_of_nat (m div 10)"
        "digit_char (n mod 10) = digit_char (m mod 10)"
        by (simp_all add: string_of_nat.simps [of n] string_of_nat.simps [of m])
      then have "n div 10 = m div 10" "n mod 10 = m mod 10"
        using "1.IH" [OF n] digit_char_inj [of "n mod 10" "m mod 10"] by simp_all
      then show ?thesis by (metis div_mult_mod_eq)
    qed
  qed
qed

lemma make_id_inj: "make_id rt a = make_id rt b \<Longrightarrow> a = b"
  by (simp add: make_id_def string_of_nat_inj)

lemma finite_taken_counters: "finite {k. counter \<le> k \<and> make_id rt k \<in> set existing}"
proof -
  have "inj (make_id rt)" by (rule injI) (rule make_id_inj)
  then have "finite (make_id rt -` set existing)"
    by (simp add: finite_vimageI)
  moreover have "{k. counter \<le> k \<and> make_id rt k \<in> set existing} \<subseteq> make_id rt -` set existing"
    by auto
  ultimately show ?thesis by (rule rev_finite_subset)
qed

text \<open>
  The \<open>while True\<close> loop that looks for an identifier not yet in \<open>existing_ids\<close>; it
  returns the counter of the identifier it takes. It ends because the identifiers of
  different counters differ and \<open>existing_ids\<close> is finite.
\<close>

function next_free_counter :: "string \<Rightarrow> string list \<Rightarrow> nat \<Rightarrow> nat" where
  "next_free_counter rt existing counter =
     (if make_id rt counter \<in> set existing then next_free_counter rt existing (counter + 1)
      else counter)"
  by pat_completeness auto
termination next_free_counter
proof (relation "measure (\<lambda>(rt, existing, counter).
         card {k. counter \<le> k \<and> make_id rt k \<in> set existing})")
  show "wf (measure (\<lambda>(rt, existing, counter).
         card {k. counter \<le> k \<and> make_id rt k \<in> set existing}))"
    by simp
next
  fix rt :: string and existing :: "string list" and counter :: nat
  assume taken: "make_id rt counter \<in> set existing"
  have "counter \<in> {k. counter \<le> k \<and> make_id rt k \<in> set existing}"
    "counter \<notin> {k. counter + 1 \<le> k \<and> make_id rt k \<in> set existing}"
    using taken by simp_all
  moreover have "{k. counter + 1 \<le> k \<and> make_id rt k \<in> set existing}
          \<subseteq> {k. counter \<le> k \<and> make_id rt k \<in> set existing}"
    by auto
  ultimately have "{k. counter + 1 \<le> k \<and> make_id rt k \<in> set existing}
          \<subset> {k. counter \<le> k \<and> make_id rt k \<in> set existing}"
    by blast
  then have "card {k. counter + 1 \<le> k \<and> make_id rt k \<in> set existing}
          < card {k. counter \<le> k \<and> make_id rt k \<in> set existing}"
    using finite_taken_counters by (rule psubset_card_mono [rotated])
  then show "((rt, existing, counter + 1), (rt, existing, counter))
          \<in> measure (\<lambda>(rt, existing, counter).
               card {k. counter \<le> k \<and> make_id rt k \<in> set existing})"
    by simp
qed

declare next_free_counter.simps [simp del]

lemma next_free_counter_free: "make_id rt (next_free_counter rt existing counter) \<notin> set existing"
  by (induction rt existing counter rule: next_free_counter.induct)
     (subst next_free_counter.simps, simp)


record resource_detail =
  rd_id :: string
  rd_type :: "string option"
  rd_co2_kg :: rat
  rd_energy_kwh :: rat
  rd_failure_probability :: rat
  rd_events_count :: nat

definition average_failure_probability :: "event list \<Rightarrow> rat" where
  "average_failure_probability resource_events =
     (let failure_probs = List.map_filter failure_probability resource_events
      in if resource_events \<noteq> [] \<and> failure_probs \<noteq> []
         then sum_list failure_probs / of_nat (length failure_probs) else 0)"

text \<open>
  \<open>_calculate_base_energy\<close> called with the \<open>type\<close> of a stored resource, which is \<open>None\<close>
  when the key is absent: the first pass of the loop then raises \<open>KeyError\<close>.
\<close>

definition base_energy_of :: "string option \<Rightarrow> datetime \<Rightarrow> datetime \<Rightarrow> py_error + rat" where
  "base_energy_of resource_type start_date end_date =
     (case resource_type of
        None \<Rightarrow> if start_date < end_date then Inl KeyError else Inr 0
      | Some rt \<Rightarrow> calculate_base_energy rt start_date end_date)"

definition historical_detail ::
  "(string \<times> resource_energy) list \<Rightarrow> datetime \<Rightarrow> string \<times> resource_record \<Rightarrow>
   py_error + resource_detail" where
  "historical_detail energy_by_res now entry =
     (let resource_id = fst entry; resource_data = snd entry
      in case (case map_of energy_by_res resource_id of
                 Some re \<Rightarrow> Inr (adjusted_energy_wh re)
               | None \<Rightarrow> base_energy_of (rtype resource_data) (now - timedelta_days 7) now) of
           Inl e \<Rightarrow> Inl e
         | Inr energy_wh \<Rightarrow>
             Inr \<lparr>rd_id = resource_id, rd_type = rtype resource_data,
                  rd_co2_kg = energy_wh / 1000 * (1 / 2), rd_energy_kwh = energy_wh / 1000,
                  rd_failure_probability = average_failure_probability (events resource_data),
                  rd_events_count = length (events resource_data)\<rparr>)"

fun historical_details ::
  "(string \<times> resource_energy) list \<Rightarrow> datetime \<Rightarrow> database \<Rightarrow>
   py_error + resource_detail list" where
  "historical_details energy_by_res now [] = Inr []"
| "historical_details energy_by_res now (entry # rest) =
     (case historical_detail energy_by_res now entry of
        Inl e \<Rightarrow> Inl e
      | Inr d \<Rightarrow>
          (case historical_details energy_by_res now rest of
             Inl e \<Rightarrow> Inl e
           | Inr ds \<Rightarrow> Inr (d # ds)))"

fun synthesize ::
  "string \<Rightarrow> rat \<Rightarrow> rat \<Rightarrow> nat \<Rightarrow> nat \<Rightarrow> string list \<Rightarrow> resource_detail list \<times> string list" where
  "synthesize rt co2_kg energy_kwh 0 counter existing_ids = ([], existing_ids)"
| "synthesize rt co2_kg energy_kwh (Suc n) counter existing_ids =
     (let c = next_free_counter rt existing_ids counter;
          resource_id = make_id rt c;
          (ds, existing_ids') = synthesize rt co2_kg energy_kwh n (c + 1) (resource_id # existing_ids)
      in (\<lparr>rd_id = resource_id, rd_type = Some rt, rd_co2_kg = co2_kg,
            rd_energy_kwh = energy_kwh, rd_failure_probability = 0, rd_events_count = 0\<rparr> # ds,
          existing_ids'))"

definition resources_of_type :: "database \<Rightarrow> string \<Rightarrow> nat" where
  "resources_of_type all_resources rt =
     length (filter (\<lambda>entry. rtype (snd entry) = Some rt) all_resources)"

fun fill_inventory ::
  "database \<Rightarrow> datetime \<Rightarrow> (string \<times> nat) list \<Rightarrow> resource_detail list \<times> string list \<Rightarrow>
   py_error + resource_detail list \<times> string list" where
  "fill_inventory all_resources now [] st = Inr st"
| "fill_inventory all_resources now ((rt, count) # rest) (details, existing_ids) =
     (let resources_with_events = resources_of_type all_resources rt;
          resources_without_events = int count - int resources_with_events
      in if resources_without_events > 0 then
           (case calculate_base_energy rt (now - timedelta_days 7) now of
              Inl e \<Rightarrow> Inl e
            | Inr base_energy \<Rightarrow>
                (let (ds, existing_ids') =
                       synthesize rt (base_energy / 1000 * (1 / 2)) (base_energy / 1000)
                         (nat resources_without_events) 1 existing_ids
                 in fill_inventory all_resources now rest (details @ ds, existing_ids')))
         else fill_inventory all_resources now rest (details, existing_ids))"

text \<open>
  \<open>resource_details.sort(key=lambda x: (x['type'], -x['co2_kg']))\<close>: a stable sort.
  Comparing a \<open>None\<close> type with a string raises \<open>TypeError\<close>. Strings compare
  lexicographically by code point.
\<close>

definition sort_details :: "resource_detail list \<Rightarrow> py_error + resource_detail list" where
  "sort_details details =
     (if list_all (\<lambda>d. rd_type d \<noteq> None) details
      then Inr (sort_key (\<lambda>d. (case rd_type d of None \<Rightarrow> [] | Some t \<Rightarrow> t, - rd_co2_kg d)) details)
      else if list_all (\<lambda>d. rd_type d = None) details
      then Inr (sort_key (\<lambda>d. - rd_co2_kg d) details)
      else Inl TypeError)"

definition generate_resource_details ::
  "(string \<times> nat) list \<Rightarrow> (string \<times> resource_energy) list \<Rightarrow> database \<Rightarrow> datetime \<Rightarrow>
   py_error + resource_detail list" where
  "generate_resource_details inventory energy_by_res all_resources now =
     (case historical_details energy_by_res now all_resources of
        Inl e \<Rightarrow> Inl e
      | Inr hist \<Rightarrow>
          (case fill_inventory all_resources now inventory (hist, map rd_id hist) of
             Inl e \<Rightarrow> Inl e
           | Inr (details, existing_ids) \<Rightarrow> sort_details details))"

definition count_type :: "string \<Rightarrow> resource_detail list \<Rightarrow> nat" where
  "count_type rt details = length (filter (\<lambda>d. rd_type d = Some rt) details)"

lemma synthesize_props:
  "synthesize rt co2 kwh n counter existing = (ds, existing') \<Longrightarrow>
   length ds = n \<and> (\<forall>d\<in>set ds. rd_type d = Some rt) \<and> distinct (map rd_id ds) \<and>
   set (map rd_id ds) \<inter> set existing = {} \<and>
   set existing' = set existing \<union> set (map rd_id ds)"
proof (induction n arbitrary: counter existing ds existing')
  case 0
  then show ?case by simp
next
  case (Suc n)
  define c where "c = next_free_counter rt existing counter"
  obtain ds0 ex0 where rec: "synthesize rt co2 kwh n (c + 1) (make_id rt c # existing) = (ds0, ex0)"
    by (cases "synthesize rt co2 kwh n (c + 1) (make_id rt c # existing)")
  from Suc.prems rec have ds: "ds = \<lparr>rd_id = make_id rt c, rd_type = Some rt, rd_co2_kg = co2,
            rd_energy_kwh = kwh, rd_failure_probability = 0, rd_events_count = 0\<rparr> # ds0"
    and ex: "existing' = ex0"
    by (simp_all add: c_def [symmetric] Let_def)
  have free: "make_id rt c \<notin> set existing"
    unfolding c_def by (rule next_free_counter_free)
  from Suc.IH [OF rec] have ih: "length ds0 = n" "\<forall>d\<in>set ds0. rd_type d = Some rt"
    "distinct (map rd_id ds0)" "set (map rd_id ds0) \<inter> set (make_id rt c # existing) = {}"
    "set ex0 = set (make_id rt c # existing) \<union> set (map rd_id ds0)"
    by simp_all
  show ?case
    using ih free by (auto simp: ds ex)
qed


fun shortfall :: "database \<Rightarrow> (string \<times> nat) list \<Rightarrow> string \<Rightarrow> nat" where
  "shortfall all_resources [] rt = 0"
| "shortfall all_resources ((rt', count) # rest) rt =
     (if rt' = rt then count - resources_of_type all_resources rt' else 0) +
     shortfall all_resources rest rt"

lemma count_type_append: "count_type rt (xs @ ys) = count_type rt xs + count_type rt ys"
  by (simp add: count_type_def)

lemma count_type_same:
  "\<forall>d\<in>set ds. rd_type d = Some rt' \<Longrightarrow>
   count_type rt ds = (if rt' = rt then length ds else 0)"
  by (induction ds) (auto simp: count_type_def)

lemma fill_inventory_props:
  "fill_inventory all_resources now inventory (ds, ex) = Inr (ds', ex') \<Longrightarrow>
   set (map rd_id ds) \<subseteq> set ex \<Longrightarrow> distinct (map rd_id ds) \<Longrightarrow>
   (\<exists>new. ds' = ds @ new) \<and> distinct (map rd_id ds') \<and> set (map rd_id ds') \<subseteq> set ex' \<and>
   (\<forall>rt. count_type rt ds' = count_type rt ds + shortfall all_resources inventory rt)"
proof (induction inventory arbitrary: ds ex)
  case Nil
  then show ?case by simp
next
  case (Cons item rest)
  obtain rt' count where item: "item = (rt', count)" by (cases item)
  let ?with = "resources_of_type all_resources rt'"
  show ?case
  proof (cases "int count - int ?with > 0")
    case False
    then have z: "count \<le> ?with" by simp
    from Cons.prems(1) False have
      "fill_inventory all_resources now rest (ds, ex) = Inr (ds', ex')"
      by (simp add: item Let_def)
    from Cons.IH [OF this Cons.prems(2,3)] show ?thesis
      by (simp add: item z)
  next
    case True
    then have n: "nat (int count - int ?with) = count - ?with" by simp
    from Cons.prems(1) True obtain base where
      base: "calculate_base_energy rt' (now - timedelta_days 7) now = Inr base"
      by (cases "calculate_base_energy rt' (now - timedelta_days 7) now")
         (simp_all add: item Let_def)
    obtain new ex1 where syn:
      "synthesize rt' (base / 2000) (base / 1000) (count - ?with) (Suc 0) ex = (new, ex1)"
      by (cases "synthesize rt' (base / 2000) (base / 1000) (count - ?with) (Suc 0) ex")
    from Cons.prems(1) True have rec:
      "fill_inventory all_resources now rest (ds @ new, ex1) = Inr (ds', ex')"
      by (simp add: item Let_def base n syn)
    from synthesize_props [OF syn] have sp: "length new = count - ?with"
      "\<forall>d\<in>set new. rd_type d = Some rt'" "distinct (map rd_id new)"
      "set (map rd_id new) \<inter> set ex = {}" "set ex1 = set ex \<union> set (map rd_id new)"
      by simp_all
    have sub: "set (map rd_id (ds @ new)) \<subseteq> set ex1"
      using Cons.prems(2) sp(5) by auto
    have dis: "distinct (map rd_id (ds @ new))"
      using Cons.prems(2,3) sp(3,4) by auto
    from Cons.IH [OF rec sub dis] obtain new' where ih:
      "ds' = (ds @ new) @ new'" "distinct (map rd_id ds')" "set (map rd_id ds') \<subseteq> set ex'"
      "\<forall>rt. count_type rt ds' = count_type rt (ds @ new) + shortfall all_resources rest rt"
      by blast
    have "count_type rt ds' = count_type rt ds + shortfall all_resources (item # rest) rt" for rt
      using ih(4) count_type_same [OF sp(2), of rt] sp(1)
      by (simp add: count_type_append item)
    with ih(1,2,3) show ?thesis by auto
  qed
qed

lemma fill_inventory_returns:
  "\<forall>item\<in>set inventory. \<exists>b. calculate_base_energy (fst item) (now - timedelta_days 7) now = Inr b \<Longrightarrow>
   \<exists>st'. fill_inventory all_resources now inventory st = Inr st'"
proof (induction inventory arbitrary: st)
  case Nil
  obtain ds ex where "st = (ds, ex)" by (cases st)
  then show ?case by simp
next
  case (Cons item rest)
  obtain rt' count where item: "item = (rt', count)" by (cases item)
  obtain ds ex where st: "st = (ds, ex)" by (cases st)
  obtain b where b: "calculate_base_energy rt' (now - timedelta_days 7) now = Inr b"
    using Cons.prems item by auto
  have rest: "\<forall>item\<in>set rest. \<exists>b. calculate_base_energy (fst item) (now - timedelta_days 7) now = Inr b"
    using Cons.prems by simp
  show ?case
    using Cons.IH [OF rest]
    by (simp add: item st Let_def b split: prod.splits)
qed

lemma historical_details_props:
  "historical_details energy_by_res now all_resources = Inr hist \<Longrightarrow>
   map rd_id hist = map fst all_resources \<and> map rd_type hist = map (\<lambda>entry. rtype (snd entry)) all_resources"
proof (induction all_resources arbitrary: hist)
  case Nil
  then show ?case by simp
next
  case (Cons entry rest)
  from Cons.prems obtain d ds where
    d: "historical_detail energy_by_res now entry = Inr d"
    and ds: "historical_details energy_by_res now rest = Inr ds"
    and hist: "hist = d # ds"
    by (auto split: sum.splits)
  from d have "rd_id d = fst entry" "rd_type d = rtype (snd entry)"
    by (auto simp: historical_detail_def Let_def split: sum.splits)
  with Cons.IH [OF ds] show ?case by (simp add: hist)
qed

lemma historical_details_returns:
  "\<forall>entry\<in>set all_resources.
      \<exists>b. base_energy_of (rtype (snd entry)) (now - timedelta_days 7) now = Inr b \<Longrightarrow>
   \<exists>hist. historical_details energy_by_res now all_resources = Inr hist"
proof (induction all_resources)
  case Nil
  show ?case by simp
next
  case (Cons entry rest)
  obtain b where "base_energy_of (rtype (snd entry)) (now - timedelta_days 7) now = Inr b"
    using Cons.prems by auto
  then have "\<exists>d. historical_detail energy_by_res now entry = Inr d"
    by (simp add: historical_detail_def Let_def split: option.splits)
  moreover have "\<exists>hist. historical_details energy_by_res now rest = Inr hist"
    using Cons.IH Cons.prems by simp
  ultimately show ?case by auto
qed

lemma count_type_historical:
  assumes "map rd_type hist = map (\<lambda>entry. rtype (snd entry)) all_resources"
  shows "count_type rt hist = resources_of_type all_resources rt"
proof -
  have "length (filter (\<lambda>t. t = Some rt) (map rd_type hist)) =
        length (filter (\<lambda>t. t = Some rt) (map (\<lambda>entry. rtype (snd entry)) all_resources))"
    by (simp only: assms)
  then show ?thesis
    by (simp add: count_type_def resources_of_type_def filter_map comp_def)
qed

lemma sort_details_props:
  assumes "sort_details ds = Inr ds'"
  shows "count_type rt ds' = count_type rt ds" "set ds' = set ds"
    "distinct (map rd_id ds') = distinct (map rd_id ds)"
proof -
  from assms obtain f :: "resource_detail \<Rightarrow> string \<times> rat" and g :: "resource_detail \<Rightarrow> rat"
    where "ds' = sort_key f ds \<or> ds' = sort_key g ds"
    by (auto simp: sort_details_def split: if_splits)
  then show "count_type rt ds' = count_type rt ds" "set ds' = set ds"
    "distinct (map rd_id ds') = distinct (map rd_id ds)"
    by (auto simp: count_type_def filter_sort distinct_map)
qed


lemma synthesize_types:
  "synthesize rt co2 kwh n counter existing = (ds, existing') \<Longrightarrow>
   list_all (\<lambda>d. rd_type d \<noteq> None) ds"
  using synthesize_props [of rt co2 kwh n counter existing ds existing']
  by (auto simp: list_all_iff)

lemma fill_inventory_types:
  "fill_inventory all_resources now inventory (ds, ex) = Inr (ds', ex') \<Longrightarrow>
   list_all (\<lambda>d. rd_type d \<noteq> None) ds \<Longrightarrow> list_all (\<lambda>d. rd_type d \<noteq> None) ds'"
proof (induction inventory arbitrary: ds ex)
  case Nil
  then show ?case by simp
next
  case (Cons item rest)
  obtain rt' count where item: "item = (rt', count)" by (cases item)
  let ?with = "resources_of_type all_resources rt'"
  show ?case
  proof (cases "int count - int ?with > 0")
    case False
    with Cons.prems(1) have
      "fill_inventory all_resources now rest (ds, ex) = Inr (ds', ex')"
      by (simp add: item Let_def)
    from Cons.IH [OF this Cons.prems(2)] show ?thesis .
  next
    case True
    then have n: "nat (int count - int ?with) = count - ?with" by simp
    from Cons.prems(1) True obtain base where
      base: "calculate_base_energy rt' (now - timedelta_days 7) now = Inr base"
      by (cases "calculate_base_energy rt' (now - timedelta_days 7) now")
         (simp_all add: item Let_def)
    obtain new ex1 where syn:
      "synthesize rt' (base / 2000) (base / 1000) (count - ?with) (Suc 0) ex = (new, ex1)"
      by (cases "synthesize rt' (base / 2000) (base / 1000) (count - ?with) (Suc 0) ex")
    from Cons.prems(1) True have rec:
      "fill_inventory all_resources now rest (ds @ new, ex1) = Inr (ds', ex')"
      by (simp add: item Let_def base n syn)
    have "list_all (\<lambda>d. rd_type d \<noteq> None) (ds @ new)"
      using Cons.prems(2) synthesize_types [OF syn] by simp
    from Cons.IH [OF rec this] show ?thesis .
  qed
qed

lemma shortfall_inventory:
  assumes "(rt, count) \<in> set PRODUCTION_INVENTORY"
  shows "shortfall all_resources PRODUCTION_INVENTORY rt = count - resources_of_type all_resources rt"
  using assms by (auto simp: PRODUCTION_INVENTORY_def)

lemma generate_resource_details_cardinality:
  assumes gen: "generate_resource_details PRODUCTION_INVENTORY energy_by_res all_resources now =
                  Inr details"
    and keys: "distinct (map fst all_resources)"
  shows "\<forall>(rt, count)\<in>set PRODUCTION_INVENTORY.
            count_type rt details = max count (resources_of_type all_resources rt)"
    and "distinct (map rd_id details)"
    and "fst ` set all_resources \<subseteq> rd_id ` set details"
proof -
  from gen obtain hist ds ex where
    hist: "historical_details energy_by_res now all_resources = Inr hist"
    and fill: "fill_inventory all_resources now PRODUCTION_INVENTORY (hist, map rd_id hist) =
                 Inr (ds, ex)"
    and sorted: "sort_details ds = Inr details"
    by (auto simp: generate_resource_details_def split: sum.splits)
  note hp = historical_details_props [OF hist]
  have dh: "distinct (map rd_id hist)" using hp keys by simp
  from fill_inventory_props [OF fill _ dh] obtain new where fp:
    "ds = hist @ new" "distinct (map rd_id ds)"
    "\<forall>rt. count_type rt ds = count_type rt hist + shortfall all_resources PRODUCTION_INVENTORY rt"
    by auto
  note sp = sort_details_props [OF sorted]
  show "\<forall>(rt, count)\<in>set PRODUCTION_INVENTORY.
            count_type rt details = max count (resources_of_type all_resources rt)"
  proof (intro ballI, clarify)
    fix rt count
    assume "(rt, count) \<in> set PRODUCTION_INVENTORY"
    from shortfall_inventory [OF this, of all_resources]
    show "count_type rt details = max count (resources_of_type all_resources rt)"
      using fp(3) count_type_historical [OF conjunct2 [OF hp], of rt] sp(1) [of rt] by simp
  qed
  show "distinct (map rd_id details)" using sp(3) fp(2) by simp
  have "fst ` set all_resources = rd_id ` set hist"
    using conjunct1 [OF hp] by (metis set_map)
  then show "fst ` set all_resources \<subseteq> rd_id ` set details"
    using sp(2) fp(1) by auto
qed

lemma generate_resource_details_returns:
  assumes "\<forall>entry\<in>set all_resources. rtype (snd entry) \<in> Some ` fst ` set PRODUCTION_INVENTORY"
  shows "\<exists>details. generate_resource_details PRODUCTION_INVENTORY energy_by_res all_resources now =
           Inr details"
proof -
  have inv: "\<forall>item\<in>set PRODUCTION_INVENTORY.
      \<exists>b. calculate_base_energy (fst item) (now - timedelta_days 7) now = Inr b"
    using weekly_base_energy [of now] by (simp add: PRODUCTION_INVENTORY_def)
  have "\<forall>entry\<in>set all_resources.
      \<exists>b. base_energy_of (rtype (snd entry)) (now - timedelta_days 7) now = Inr b"
  proof
    fix entry assume "entry \<in> set all_resources"
    with assms obtain item where "item \<in> set PRODUCTION_INVENTORY"
      "rtype (snd entry) = Some (fst item)" by auto
    with inv show "\<exists>b. base_energy_of (rtype (snd entry)) (now - timedelta_days 7) now = Inr b"
      by (simp add: base_energy_of_def)
  qed
  from historical_details_returns [OF this] obtain hist where
    hist: "historical_details energy_by_res now all_resources = Inr hist" by blast
  from fill_inventory_returns [OF inv] obtain ds ex where
    fill: "fill_inventory all_resources now PRODUCTION_INVENTORY (hist, map rd_id hist) =
             Inr (ds, ex)"
    by (metis surj_pair)
  have "map rd_type hist = map (\<lambda>entry. rtype (snd entry)) all_resources"
    using historical_details_props [OF hist] by simp
  then have types: "set (map rd_type hist) = set (map (\<lambda>entry. rtype (snd entry)) all_resources)"
    by (rule arg_cong)
  have "\<forall>d\<in>set hist. rd_type d \<noteq> None"
  proof
    fix d assume "d \<in> set hist"
    then have "rd_type d \<in> set (map rd_type hist)" by simp
    with types obtain entry where "entry \<in> set all_resources" "rd_type d = rtype (snd entry)"
      by auto
    with assms show "rd_type d \<noteq> None" by auto
  qed
  then have "list_all (\<lambda>d. rd_type d \<noteq> None) hist" by (simp add: list_all_iff)
  from fill_inventory_types [OF fill this] have "list_all (\<lambda>d. rd_type d \<noteq> None) ds" .
  then show ?thesis
    by (simp add: generate_resource_details_def hist fill sort_details_def)
qed


text \<open>
  Claim C4, as the code has it. For every type of the inventory the instance list holds
  as many entries as the larger of the fleet count and the number of stored resources of
  that type: exactly the fleet count when the store has at most that many, and every
  stored resource when it has more. No stored resource is dropped and no identifier
  occurs twice. The list is built without an error whenever every stored resource has a
  type of the inventory, also when a type has more stored resources than the fleet.
\<close>

theorem reconciled_instance_list:
  "(\<forall>details.
      generate_resource_details PRODUCTION_INVENTORY energy_by_res all_resources now = Inr details \<and>
      distinct (map fst all_resources) \<longrightarrow>
      (\<forall>(rt, count)\<in>set PRODUCTION_INVENTORY.
          count_type rt details = max count (resources_of_type all_resources rt)) \<and>
      distinct (map rd_id details) \<and>
      fst ` set all_resources \<subseteq> rd_id ` set details) \<and>
   ((\<forall>entry\<in>set all_resources. rtype (snd entry) \<in> Some ` fst ` set PRODUCTION_INVENTORY) \<longrightarrow>
      (\<exists>details.
          generate_resource_details PRODUCTION_INVENTORY energy_by_res all_resources now =
            Inr details))"
proof (intro conjI allI impI)
  fix details
  assume a: "generate_resource_details PRODUCTION_INVENTORY energy_by_res all_resources now =
      Inr details \<and> distinct (map fst all_resources)"
  then have g: "generate_resource_details PRODUCTION_INVENTORY energy_by_res all_resources now =
      Inr details" and k: "distinct (map fst all_resources)"
    by simp_all
  show "\<forall>(rt, count)\<in>set PRODUCTION_INVENTORY.
          count_type rt details = max count (resources_of_type all_resources rt)"
    by (rule generate_resource_details_cardinality(1) [OF g k])
  show "distinct (map rd_id details)"
    by (rule generate_resource_details_cardinality(2) [OF g k])
  show "fst ` set all_resources \<subseteq> rd_id ` set details"
    by (rule generate_resource_details_cardinality(3) [OF g k])
next
  assume "\<forall>entry\<in>set all_resources. rtype (snd entry) \<in> Some ` fst ` set PRODUCTION_INVENTORY"
  then show "\<exists>details.
          generate_resource_details PRODUCTION_INVENTORY energy_by_res all_resources now =
            Inr details"
    by (rule generate_resource_details_returns)
qed

text \<open>A store with two gateways, one more than the fleet has, each with one event.\<close>

definition two_gateways :: database where
  "two_gateways =
     [(''gateway_a'', \<lparr>rtype = Some ''internet_gateway'', events = [example_stop_event],
                        created_at = ''t0'', updated_at = ''t0''\<rparr>),
      (''gateway_b'', \<lparr>rtype = Some ''internet_gateway'', events = [example_stop_event],
                        created_at = ''t0'', updated_at = ''t0''\<rparr>)]"

lemma two_gateways_facts:
  "\<forall>entry\<in>set two_gateways. rtype (snd entry) \<in> Some ` fst ` set PRODUCTION_INVENTORY"
  "distinct (map fst two_gateways)"
  "resources_of_type two_gateways ''internet_gateway'' = 2"
  "resources_of_type two_gateways ''server'' = 0"
  "(''internet_gateway'', 1) \<in> set PRODUCTION_INVENTORY"
  "(''server'', 10) \<in> set PRODUCTION_INVENTORY"
  by (simp_all add: two_gateways_def PRODUCTION_INVENTORY_def resources_of_type_def)

theorem reconciled_instance_list_witness:
  "\<exists>details. generate_resource_details PRODUCTION_INVENTORY [] two_gateways (timedelta_days 7) =
       Inr details \<and>
     count_type ''server'' details = 10 \<and> count_type ''internet_gateway'' details = 2 \<and>
     distinct (map rd_id details)"
proof -
  from reconciled_instance_list [of "[]" two_gateways "timedelta_days 7"] two_gateways_facts(1)
  obtain details where g:
    "generate_resource_details PRODUCTION_INVENTORY [] two_gateways (timedelta_days 7) = Inr details"
    by blast
  with reconciled_instance_list [of "[]" two_gateways "timedelta_days 7"] two_gateways_facts(2)
  have c: "\<forall>(rt, count)\<in>set PRODUCTION_INVENTORY.
          count_type rt details = max count (resources_of_type two_gateways rt)"
    and d: "distinct (map rd_id details)"
    by blast+
  from c two_gateways_facts(5) have "count_type ''internet_gateway'' details =
      max 1 (resources_of_type two_gateways ''internet_gateway'')" by blast
  moreover from c two_gateways_facts(6) have "count_type ''server'' details =
      max 10 (resources_of_type two_gateways ''server'')" by blast
  ultimately show ?thesis
    using g d by (simp add: two_gateways_facts(3,4))
qed

text \<open>
  With two stored gateways and a fleet of one, the list is returned and holds both.
\<close>

theorem excess_history_is_kept_without_error:
  "(case generate_resource_details PRODUCTION_INVENTORY [] two_gateways (timedelta_days 7) of
      Inl e \<Rightarrow> False
    | Inr details \<Rightarrow> count_type ''internet_gateway'' details = 2)"
proof -
  from generate_resource_details_returns [OF two_gateways_facts(1), of "[]" "timedelta_days 7"]
  obtain details where g:
    "generate_resource_details PRODUCTION_INVENTORY [] two_gateways (timedelta_days 7) = Inr details"
    by blast
  from generate_resource_details_cardinality(1) [OF g two_gateways_facts(2)] two_gateways_facts(5)
  have "count_type ''internet_gateway'' details =
      max 1 (resources_of_type two_gateways ''internet_gateway'')" by blast
  then show ?thesis by (simp add: g two_gateways_facts(3))
qed


end
